theory Spec2Isabelle
  imports Complex_Main
begin

section \<open>Floating-point values\<close>

text \<open>
  The model follows \<^verbatim>\<open>DQN_PyTorch.py\<close>. A number of the source (an element of a
  numpy array or of a tensor, a Python float) is a finite value or one of the three
  special values of IEEE 754 arithmetic. The two zeros are one value, \<open>Fin 0\<close>.
\<close>

datatype fl = Fin real | PInf | NInf | NaN

definition is_fin :: "fl \<Rightarrow> bool" where
  "is_fin v = (case v of Fin x \<Rightarrow> True | PInf \<Rightarrow> False | NInf \<Rightarrow> False | NaN \<Rightarrow> False)"

definition not_negative :: "fl \<Rightarrow> bool" where
  "not_negative v = (case v of Fin x \<Rightarrow> 0 \<le> x | PInf \<Rightarrow> True | NInf \<Rightarrow> False | NaN \<Rightarrow> False)"

text \<open>
  Rounding to 32-bit precision (binary32, round to nearest, ties to even): 24
  significant bits, the least exponent - 126, and infinity when the rounded magnitude
  reaches \<open>2 ^ 128\<close>.
\<close>

definition round_half_even :: "real \<Rightarrow> int" where
  "round_half_even z =
     (let f = \<lfloor>z\<rfloor>; d = z - of_int f
      in if d < 1 / 2 then f else if 1 / 2 < d then f + 1 else if even f then f else f + 1)"

definition round32 :: "real \<Rightarrow> fl" where
  "round32 x =
     (if x = 0 then Fin 0
      else let e = max \<lfloor>log 2 \<bar>x\<bar>\<rfloor> (- 126);
               u = 2 powr (of_int e - 23);
               y = u * of_int (round_half_even (x / u))
           in if 2 ^ 128 \<le> \<bar>y\<bar> then (if 0 < x then PInf else NInf) else Fin y)"

text \<open>\<^verbatim>\<open>.float()\<close>: the conversion of a number to 32-bit precision.\<close>

definition to_f32 :: "fl \<Rightarrow> fl" where
  "to_f32 v = (case v of Fin x \<Rightarrow> round32 x | PInf \<Rightarrow> PInf | NInf \<Rightarrow> NInf | NaN \<Rightarrow> NaN)"

text \<open>
  The arithmetic of 32-bit tensors. A special operand gives the result IEEE 754
  prescribes: not-a-number propagates, \<open>inf - inf\<close>, \<open>0 * inf\<close>, \<open>inf / inf\<close> and
  \<open>0 / 0\<close> are not numbers. On finite operands the result is the exact result rounded,
  so it may be infinite; adding zero and multiplying or dividing by one are exact (on a
  value of 32-bit precision that is what rounding gives).
\<close>

fun fneg :: "fl \<Rightarrow> fl" where
  "fneg (Fin x) = Fin (- x)"
| "fneg PInf = NInf"
| "fneg NInf = PInf"
| "fneg NaN = NaN"

fun fadd :: "fl \<Rightarrow> fl \<Rightarrow> fl" where
  "fadd NaN b = NaN"
| "fadd a NaN = NaN"
| "fadd PInf NInf = NaN"
| "fadd NInf PInf = NaN"
| "fadd PInf b = PInf"
| "fadd a PInf = PInf"
| "fadd NInf b = NInf"
| "fadd a NInf = NInf"
| "fadd (Fin x) (Fin y) = (if y = 0 then Fin x else if x = 0 then Fin y else round32 (x + y))"

definition fsub :: "fl \<Rightarrow> fl \<Rightarrow> fl" where
  "fsub a b = fadd a (fneg b)"

fun fmul :: "fl \<Rightarrow> fl \<Rightarrow> fl" where
  "fmul NaN b = NaN"
| "fmul a NaN = NaN"
| "fmul PInf PInf = PInf"
| "fmul PInf NInf = NInf"
| "fmul NInf PInf = NInf"
| "fmul NInf NInf = PInf"
| "fmul PInf (Fin y) = (if y = 0 then NaN else if 0 < y then PInf else NInf)"
| "fmul NInf (Fin y) = (if y = 0 then NaN else if 0 < y then NInf else PInf)"
| "fmul (Fin x) PInf = (if x = 0 then NaN else if 0 < x then PInf else NInf)"
| "fmul (Fin x) NInf = (if x = 0 then NaN else if 0 < x then NInf else PInf)"
| "fmul (Fin x) (Fin y) = (if y = 1 then Fin x else if x = 1 then Fin y else round32 (x * y))"

text \<open>Division; a zero divisor is the positive zero, as the number of elements is.\<close>

fun fdiv :: "fl \<Rightarrow> fl \<Rightarrow> fl" where
  "fdiv NaN b = NaN"
| "fdiv a NaN = NaN"
| "fdiv PInf PInf = NaN"
| "fdiv PInf NInf = NaN"
| "fdiv NInf PInf = NaN"
| "fdiv NInf NInf = NaN"
| "fdiv PInf (Fin y) = (if y < 0 then NInf else PInf)"
| "fdiv NInf (Fin y) = (if y < 0 then PInf else NInf)"
| "fdiv (Fin x) PInf = Fin 0"
| "fdiv (Fin x) NInf = Fin 0"
| "fdiv (Fin x) (Fin y) =
     (if y = 0 then (if x = 0 then NaN else if 0 < x then PInf else NInf)
      else if y = 1 then Fin x else round32 (x / y))"

text \<open>The maximum as \<^verbatim>\<open>torch.max\<close> and \<^verbatim>\<open>ReLU\<close> take it: not-a-number propagates.\<close>

fun fmax :: "fl \<Rightarrow> fl \<Rightarrow> fl" where
  "fmax NaN b = NaN"
| "fmax a NaN = NaN"
| "fmax PInf b = PInf"
| "fmax a PInf = PInf"
| "fmax NInf b = b"
| "fmax a NInf = a"
| "fmax (Fin x) (Fin y) = Fin (max x y)"

text \<open>A sum of several terms, in the order of the indices. (The order in which PyTorch
  accumulates is not fixed by the source.)\<close>

definition fsum :: "fl list \<Rightarrow> fl" where
  "fsum vs = foldl fadd (Fin 0) vs"

section \<open>Errors and tensors\<close>

text \<open>
  An exception of the source is a value \<open>Inl e\<close>; \<open>ebind\<close> sequences two steps and
  passes the first exception on.
\<close>

datatype error =
  RuntimeError | TypeError | ValueError | IndexError | UnpicklingError | FileNotFoundError

definition ebind :: "error + 'a \<Rightarrow> ('a \<Rightarrow> error + 'b) \<Rightarrow> error + 'b" where
  "ebind m f = (case m of Inl e \<Rightarrow> Inl e | Inr v \<Rightarrow> f v)"

fun mapM :: "('a \<Rightarrow> error + 'b) \<Rightarrow> 'a list \<Rightarrow> error + 'b list" where
  "mapM f [] = Inr []"
| "mapM f (x # xs) = ebind (f x) (\<lambda>y. ebind (mapM f xs) (\<lambda>ys. Inr (y # ys)))"

text \<open>
  A parameter tensor is stored as PyTorch stores it: a shape and the elements in
  row-major order. Activations and batch inputs are nested lists, one level per
  dimension; an \<open>image\<close> is indexed channel, row, column.
\<close>

record tensor =
  shape :: "nat list"
  data :: "fl list"

record layer =
  weight :: tensor
  bias :: tensor

type_synonym image = "fl list list list"

text \<open>
  The sizes of the two inner dimensions of a three-dimensional array, when all of its
  three dimensions are non-empty and every row has the same length; \<open>None\<close> for
  anything else.
\<close>

definition image_dims :: "'a list list list \<Rightarrow> (nat \<times> nat) option" where
  "image_dims x =
     (case x of
        [] \<Rightarrow> None
      | ch # _ \<Rightarrow>
          (case ch of
             [] \<Rightarrow> None
           | r # _ \<Rightarrow>
               if r \<noteq> [] \<and> list_all (\<lambda>c. length c = length ch \<and> list_all (\<lambda>q. length q = length r) c) x
               then Some (length ch, length r)
               else None))"

section \<open>The layers of the network\<close>

text \<open>
  \<^verbatim>\<open>nn.Conv2d(in_channels, out_channels, kernel_size=3, stride=1, padding=1)\<close>:
  a cross-correlation with a 3x3 kernel over the input padded with one ring of zeros,
  so the output has the input's height and width. The input must have \<open>cin\<close>
  channels, otherwise PyTorch raises.
\<close>

definition padded :: "fl list list \<Rightarrow> int \<Rightarrow> int \<Rightarrow> fl" where
  "padded m i j =
     (if 0 \<le> i \<and> i < int (length m) \<and> 0 \<le> j \<and> j < int (length (m ! nat i))
      then m ! nat i ! nat j else Fin 0)"

definition Conv2d :: "nat \<Rightarrow> nat \<Rightarrow> layer \<Rightarrow> image \<Rightarrow> error + image" where
  "Conv2d cin cout l x =
     (case image_dims x of
        None \<Rightarrow> Inl RuntimeError
      | Some (h, wd) \<Rightarrow>
          if length x \<noteq> cin then Inl RuntimeError
          else Inr (map (\<lambda>oc. map (\<lambda>i. map (\<lambda>j.
                 fadd (data (bias l) ! oc)
                   (fsum (map (\<lambda>c. fsum (map (\<lambda>a. fsum (map (\<lambda>d.
                      fmul (data (weight l) ! (((oc * cin + c) * 3 + a) * 3 + d))
                        (padded (x ! c) (int i + int a - 1) (int j + int d - 1)))
                    [0..<3])) [0..<3])) [0..<cin])))
                 [0..<wd]) [0..<h]) [0..<cout]))"

definition ReLU :: "fl list \<Rightarrow> fl list" where
  "ReLU v = map (fmax (Fin 0)) v"

definition ReLU_image :: "image \<Rightarrow> image" where
  "ReLU_image x = map (map ReLU) x"

text \<open>\<^verbatim>\<open>torch.flatten(x, 1)\<close> for one element of the batch: channel, row, column order.\<close>

definition flatten :: "image \<Rightarrow> fl list" where
  "flatten x = concat (concat x)"

text \<open>\<^verbatim>\<open>nn.Linear(in_features, out_features)\<close>: \<open>y = W x + b\<close>, \<open>W\<close> of shape
  \<open>[out_features, in_features]\<close>.\<close>

definition Linear :: "nat \<Rightarrow> nat \<Rightarrow> layer \<Rightarrow> fl list \<Rightarrow> error + fl list" where
  "Linear nin nout l v =
     (if length v \<noteq> nin then Inl RuntimeError
      else Inr (map (\<lambda>oc. fadd (data (bias l) ! oc)
                  (fsum (map (\<lambda>k. fmul (data (weight l) ! (oc * nin + k)) (v ! k)) [0..<nin])))
                [0..<nout]))"

section \<open>The DQN object\<close>

text \<open>
  \<open>params\<close> is the configuration dictionary; \<open>load_file\<close> is \<open>None\<close> or a path; the
  learning rate and the discount are finite Python floats. The optimizer is
  \<^verbatim>\<open>optim.Adam\<close>: its learning rate, its step count and its two moment estimates per
  parameter (empty until the first step).
\<close>

record params =
  width :: nat
  height :: nat
  lr :: real
  discount :: real
  load_file :: "string option"

record adam =
  adam_lr :: real
  adam_steps :: nat
  exp_avg :: "(string \<times> tensor) list"
  exp_avg_sq :: "(string \<times> tensor) list"

record dqn =
  params :: params
  conv1 :: layer
  conv2 :: layer
  fc3 :: layer
  fc4 :: layer
  optimizer :: adam
  global_step :: int

text \<open>
  \<open>forward\<close>, for one element of the batch and for the batch. \<open>flat_size\<close> is the
  \<open>in_features\<close> that \<open>__init__\<close> gives to \<open>fc3\<close>.
\<close>

definition flat_size :: "params \<Rightarrow> nat" where
  "flat_size p = 32 * width p * height p"

definition forward_sample :: "dqn \<Rightarrow> image \<Rightarrow> error + fl list" where
  "forward_sample net x =
     ebind (Conv2d 6 16 (conv1 net) x) (\<lambda>x1.
     ebind (Conv2d 16 32 (conv2 net) (ReLU_image x1)) (\<lambda>x2.
     ebind (Linear (flat_size (params net)) 256 (fc3 net) (flatten (ReLU_image x2))) (\<lambda>x3.
     Linear 256 4 (fc4 net) (ReLU x3))))"

definition forward :: "dqn \<Rightarrow> image list \<Rightarrow> error + fl list list" where
  "forward net xs = mapM (forward_sample net) xs"

section \<open>The training step\<close>

text \<open>
  Step 1, \<^verbatim>\<open>torch.from_numpy(...).float()\<close>: every element of the five arrays is
  converted to 32-bit precision.
\<close>

definition floats :: "fl list \<Rightarrow> fl list" where
  "floats v = map to_f32 v"

definition floats2 :: "fl list list \<Rightarrow> fl list list" where
  "floats2 m = map floats m"

definition floats3 :: "fl list list list \<Rightarrow> fl list list list" where
  "floats3 x = map floats2 x"

definition floats4 :: "fl list list list list \<Rightarrow> fl list list list list" where
  "floats4 b = map floats3 b"

text \<open>
  Step 2, \<^verbatim>\<open>permute(0, 3, 1, 2)\<close>: a batch indexed row, column, channel becomes a
  batch indexed channel, row, column. An element with an empty dimension is reported
  here (the first convolution raises on it in the source).
\<close>

definition permute_sample :: "fl list list list \<Rightarrow> error + image" where
  "permute_sample s =
     (case image_dims s of
        None \<Rightarrow> Inl RuntimeError
      | Some (w, c) \<Rightarrow>
          Inr (map (\<lambda>k. map (\<lambda>i. map (\<lambda>j. s ! i ! j ! k) [0..<w]) [0..<length s]) [0..<c]))"

definition permute :: "fl list list list list \<Rightarrow> error + image list" where
  "permute b = mapM permute_sample b"

text \<open>
  Element-wise arithmetic on two one-dimensional tensors. The batch contract gives both
  the same length; every other pair is reported as \<open>RuntimeError\<close> (PyTorch raises on
  it too, unless one of the two has length 1, a case outside the batch contract).
\<close>

definition ew :: "(fl \<Rightarrow> fl \<Rightarrow> fl) \<Rightarrow> fl list \<Rightarrow> fl list \<Rightarrow> error + fl list" where
  "ew f xs ys = (if length xs = length ys then Inr (map2 f xs ys) else Inl RuntimeError)"

text \<open>\<^verbatim>\<open>torch.max(q_next, dim=1)[0]\<close> for one row.\<close>

definition row_max :: "fl list \<Rightarrow> error + fl" where
  "row_max q = (case q of [] \<Rightarrow> Inl RuntimeError | x # xs \<Rightarrow> Inr (fold fmax xs x))"

text \<open>
  Step 3, the block under \<^verbatim>\<open>torch.no_grad()\<close>:
  \<^verbatim>\<open>yj = bat_r + (1.0 - bat_t) * discount * q_t\<close>, every operation in 32-bit
  precision; the product with the next-state value is a multiplication, not a mask.
\<close>

definition bellman_target :: "dqn \<Rightarrow> image list \<Rightarrow> fl list \<Rightarrow> fl list \<Rightarrow> error + fl list" where
  "bellman_target net bat_n bat_t bat_r =
     ebind (forward net bat_n) (\<lambda>q_next.
     ebind (mapM row_max q_next) (\<lambda>q_t.
     ebind (ew fmul
              (map (\<lambda>t. fmul (fsub (Fin 1) t) (to_f32 (Fin (discount (params net))))) bat_t) q_t)
       (\<lambda>future.
     ew fadd bat_r future)))"

text \<open>Step 4: \<^verbatim>\<open>torch.sum(q_pred_all_actions * bat_a, dim=1)\<close>.\<close>

definition taken_row :: "fl list \<times> fl list \<Rightarrow> error + fl" where
  "taken_row qa = ebind (ew fmul (fst qa) (snd qa)) (\<lambda>p. Inr (fsum p))"

definition taken :: "fl list list \<Rightarrow> fl list list \<Rightarrow> error + fl list" where
  "taken q_pred_all bat_a =
     (if length q_pred_all = length bat_a then mapM taken_row (zip q_pred_all bat_a)
      else Inl RuntimeError)"

text \<open>
  \<^verbatim>\<open>nn.MSELoss()\<close>: the sum of the squared differences divided by their number.
\<close>

definition MSELoss :: "fl list \<Rightarrow> fl list \<Rightarrow> error + fl" where
  "MSELoss inp tgt =
     (if length inp \<noteq> length tgt then Inl RuntimeError
      else Inr (fdiv (fsum (map2 (\<lambda>p y. fmul (fsub p y) (fsub p y)) inp tgt))
                  (to_f32 (Fin (real (length inp))))))"

text \<open>
  Steps 1 to 5 of \<open>train_step\<close>: the permuted states, the target \<open>yj\<close>, the
  prediction \<open>q_pred\<close> for the actions taken, and the loss.
\<close>

definition train_forward ::
  "dqn \<Rightarrow> fl list list list list \<Rightarrow> fl list list \<Rightarrow> fl list \<Rightarrow> fl list list list list \<Rightarrow> fl list
     \<Rightarrow> error + (image list \<times> fl list \<times> fl list \<times> fl)" where
  "train_forward net bat_s bat_a bat_t bat_n bat_r =
     ebind (permute (floats4 bat_s)) (\<lambda>s.
     ebind (permute (floats4 bat_n)) (\<lambda>n.
     ebind (bellman_target net n (floats bat_t) (floats bat_r)) (\<lambda>yj.
     ebind (forward net s) (\<lambda>q_pred_all_actions.
     ebind (taken q_pred_all_actions (floats2 bat_a)) (\<lambda>q_pred.
     ebind (MSELoss q_pred yj) (\<lambda>loss.
     Inr (s, yj, q_pred, loss)))))))"

text \<open>
  Step 5, second half: \<^verbatim>\<open>zero_grad\<close>, \<^verbatim>\<open>loss.backward()\<close> and
  \<^verbatim>\<open>optimizer.step()\<close> are PyTorch's. Together they are a function \<open>opt\<close> of
  what the gradient graph holds: the network, the permuted states, the actions and the
  target as a constant. Of its result \<open>train_step\<close> takes the four layers and the
  optimizer state; then it counts the step.
\<close>

type_synonym backward_step = "dqn \<Rightarrow> image list \<Rightarrow> fl list list \<Rightarrow> fl list \<Rightarrow> dqn"

definition train_step ::
  "backward_step \<Rightarrow> dqn \<Rightarrow> fl list list list list \<Rightarrow> fl list list \<Rightarrow> fl list
     \<Rightarrow> fl list list list list \<Rightarrow> fl list \<Rightarrow> error + (dqn \<times> int \<times> fl)" where
  "train_step opt net bat_s bat_a bat_t bat_n bat_r =
     ebind (train_forward net bat_s bat_a bat_t bat_n bat_r) (\<lambda>(s, yj, q_pred, loss).
       let upd = opt net s (floats2 bat_a) yj;
           net' = net\<lparr>conv1 := conv1 upd, conv2 := conv2 upd, fc3 := fc3 upd, fc4 := fc4 upd,
                      optimizer := optimizer upd, global_step := global_step net + 1\<rparr>
       in Inr (net', global_step net', loss))"

section \<open>Checkpoints\<close>

text \<open>
  \<open>state_dict()\<close> of the module: its registered parameters, in registration order.
  The activation modules and \<open>loss_fn\<close> have no parameters; \<open>optimizer\<close>,
  \<open>params\<close> and \<open>global_step\<close> are plain attributes and are not part of it.
\<close>

definition state_dict :: "dqn \<Rightarrow> (string \<times> tensor) list" where
  "state_dict net =
     [(''conv1.weight'', weight (conv1 net)), (''conv1.bias'', bias (conv1 net)),
      (''conv2.weight'', weight (conv2 net)), (''conv2.bias'', bias (conv2 net)),
      (''fc3.weight'', weight (fc3 net)), (''fc3.bias'', bias (fc3 net)),
      (''fc4.weight'', weight (fc4 net)), (''fc4.bias'', bias (fc4 net))]"

text \<open>
  A file holds a pickled object or something \<^verbatim>\<open>torch.load\<close> cannot read. The file
  system maps a path to its file; \<^verbatim>\<open>os.path.exists\<close> is \<open>fs path \<noteq> None\<close>. Writing
  a file is taken to succeed.
\<close>

datatype pyobj = StateDict "(string \<times> tensor) list" | OtherObject

datatype stored = Pickle pyobj | Garbage

type_synonym filesystem = "string \<Rightarrow> stored option"

datatype message =
    LoadingCheckpoint
  | LoadedModel int
  | ErrorLoadingModel error
  | CouldNotFindModel string
  | SavingModel string

definition torch_load :: "filesystem \<Rightarrow> string \<Rightarrow> error + pyobj" where
  "torch_load fs path =
     (case fs path of
        None \<Rightarrow> Inl FileNotFoundError
      | Some Garbage \<Rightarrow> Inl UnpicklingError
      | Some (Pickle obj) \<Rightarrow> Inr obj)"

definition save_ckpt :: "dqn \<Rightarrow> string \<Rightarrow> filesystem \<Rightarrow> filesystem \<times> message list" where
  "save_ckpt net filename fs =
     (fs(filename \<mapsto> Pickle (StateDict (state_dict net))), [SavingModel filename])"

text \<open>
  \<^verbatim>\<open>nn.Module.load_state_dict\<close> (strict): it visits every parameter of the module; a
  parameter whose key is in the dictionary with the parameter's shape is overwritten in
  place (\<^verbatim>\<open>param.copy_\<close>), every other one is noted as an error and left as it is.
  Keys of the dictionary that the module does not have are errors too. Only after the
  whole traversal does it raise, when an error was noted. The result is the module
  after the call and the exception, if any.
\<close>

definition load_param :: "(string \<times> tensor) list \<Rightarrow> string \<Rightarrow> tensor \<Rightarrow> tensor \<times> bool" where
  "load_param sd key p =
     (case map_of sd key of
        None \<Rightarrow> (p, False)
      | Some inp \<Rightarrow> if shape inp = shape p then (p\<lparr>data := data inp\<rparr>, True) else (p, False))"

definition load_layer :: "(string \<times> tensor) list \<Rightarrow> string \<Rightarrow> layer \<Rightarrow> layer \<times> bool" where
  "load_layer sd name l =
     (let (w, okw) = load_param sd (name @ ''.weight'') (weight l);
          (b, okb) = load_param sd (name @ ''.bias'') (bias l)
      in (l\<lparr>weight := w, bias := b\<rparr>, okw \<and> okb))"

definition load_state_dict :: "dqn \<Rightarrow> pyobj \<Rightarrow> dqn \<times> error option" where
  "load_state_dict net obj =
     (case obj of
        OtherObject \<Rightarrow> (net, Some TypeError)
      | StateDict sd \<Rightarrow>
          (let (c1, ok1) = load_layer sd ''conv1'' (conv1 net);
               (c2, ok2) = load_layer sd ''conv2'' (conv2 net);
               (f3, ok3) = load_layer sd ''fc3'' (fc3 net);
               (f4, ok4) = load_layer sd ''fc4'' (fc4 net);
               unexpected = list_ex (\<lambda>k. k \<notin> set (map fst (state_dict net))) (map fst sd)
           in (net\<lparr>conv1 := c1, conv2 := c2, fc3 := f3, fc4 := f4\<rparr>,
               if ok1 \<and> ok2 \<and> ok3 \<and> ok4 \<and> \<not> unexpected then None else Some RuntimeError)))"

section \<open>The step count in the file name\<close>

text \<open>\<^verbatim>\<open>str.split(sep)\<close>: the fields between the separators, at least one.\<close>

fun str_split :: "char \<Rightarrow> string \<Rightarrow> string list" where
  "str_split sep [] = [[]]"
| "str_split sep (c # cs) =
     (if c = sep then [] # str_split sep cs
      else (case str_split sep cs of [] \<Rightarrow> [[c]] | f # fs \<Rightarrow> (c # f) # fs))"

text \<open>\<^verbatim>\<open>fields[-2]\<close>: \<open>IndexError\<close> when there are fewer than two fields.\<close>

definition second_last :: "string list \<Rightarrow> error + string" where
  "second_last parts =
     (if length parts < 2 then Inl IndexError else Inr (parts ! (length parts - 2)))"

text \<open>
  A path is a Python string; a character of the model is a code point below 256.

  \<^verbatim>\<open>int(s)\<close>: white space around the number is dropped, one sign may come first,
  then one or more decimal digits, at most 4300; anything else is \<open>ValueError\<close>.
  The white space \<open>int\<close> drops is the tab, the line feed, the vertical tab, the
  form feed, the carriage return and the space (9 to 13 and 32) and, beyond ASCII, the
  next line and the no-break space (133 and 160); the separators 28 to 31 are not
  dropped. Below 256 the only decimal digits are 0 to 9. (An underscore between
  digits, which \<open>int\<close> also reads, cannot occur in a field that \<open>split('_')\<close>
  returned.)
\<close>

definition int_space :: "char \<Rightarrow> bool" where
  "int_space c \<longleftrightarrow> (of_char c :: nat) \<in> set [9, 10, 11, 12, 13, 32, 133, 160]"

definition strip :: "string \<Rightarrow> string" where
  "strip s = rev (dropWhile int_space (rev (dropWhile int_space s)))"

definition digit_of :: "char \<Rightarrow> nat option" where
  "digit_of c = (let n = (of_char c :: nat) in if 48 \<le> n \<and> n \<le> 57 then Some (n - 48) else None)"

fun digits_value :: "nat \<Rightarrow> string \<Rightarrow> nat option" where
  "digits_value acc [] = Some acc"
| "digits_value acc (c # cs) =
     (case digit_of c of None \<Rightarrow> None | Some d \<Rightarrow> digits_value (10 * acc + d) cs)"

definition py_int :: "string \<Rightarrow> error + int" where
  "py_int s =
     (let t = strip s;
          (neg, ds) = (case t of
                         [] \<Rightarrow> (False, [])
                       | c # r \<Rightarrow> if c = CHR ''-'' then (True, r)
                                  else if c = CHR ''+'' then (False, r)
                                  else (False, t))
      in if ds = [] \<or> 4300 < length ds then Inl ValueError
         else (case digits_value 0 ds of
                 None \<Rightarrow> Inl ValueError
               | Some n \<Rightarrow> Inr (if neg then - int n else int n)))"

text \<open>\<^verbatim>\<open>int(self.params['load_file'].split('_')[-2])\<close>: the whole path is split.\<close>

definition step_of_path :: "string \<Rightarrow> error + int" where
  "step_of_path path = ebind (second_last (str_split CHR ''_'' path)) py_int"

section \<open>Construction\<close>

text \<open>
  The layers are created with the shapes of the architecture and random values;
  \<open>rnd key i\<close> is the 32-bit value drawn for element \<open>i\<close> of parameter \<open>key\<close>.
\<close>

definition fresh_tensor :: "(string \<Rightarrow> nat \<Rightarrow> fl) \<Rightarrow> string \<Rightarrow> nat list \<Rightarrow> tensor" where
  "fresh_tensor rnd key shp = \<lparr>shape = shp, data = map (rnd key) [0..<prod_list shp]\<rparr>"

definition fresh_net :: "params \<Rightarrow> (string \<Rightarrow> nat \<Rightarrow> fl) \<Rightarrow> dqn" where
  "fresh_net p rnd =
     \<lparr>params = p,
      conv1 = \<lparr>weight = fresh_tensor rnd ''conv1.weight'' [16, 6, 3, 3],
               bias = fresh_tensor rnd ''conv1.bias'' [16]\<rparr>,
      conv2 = \<lparr>weight = fresh_tensor rnd ''conv2.weight'' [32, 16, 3, 3],
               bias = fresh_tensor rnd ''conv2.bias'' [32]\<rparr>,
      fc3 = \<lparr>weight = fresh_tensor rnd ''fc3.weight'' [256, flat_size p],
             bias = fresh_tensor rnd ''fc3.bias'' [256]\<rparr>,
      fc4 = \<lparr>weight = fresh_tensor rnd ''fc4.weight'' [4, 256],
             bias = fresh_tensor rnd ''fc4.bias'' [4]\<rparr>,
      optimizer = \<lparr>adam_lr = lr p, adam_steps = 0, exp_avg = [], exp_avg_sq = []\<rparr>,
      global_step = 0\<rparr>"

text \<open>
  The body of the \<^verbatim>\<open>try\<close> block: the object after it and the exception that left it,
  if any. \<open>load_state_dict\<close> has already changed the object when the step count is
  read.
\<close>

definition try_load :: "string \<Rightarrow> filesystem \<Rightarrow> dqn \<Rightarrow> dqn \<times> error option" where
  "try_load path fs net =
     (case torch_load fs path of
        Inl e \<Rightarrow> (net, Some e)
      | Inr obj \<Rightarrow>
          (case load_state_dict net obj of
             (net', Some e) \<Rightarrow> (net', Some e)
           | (net', None) \<Rightarrow>
               (case step_of_path path of
                  Inl e \<Rightarrow> (net', Some e)
                | Inr n \<Rightarrow> (net'\<lparr>global_step := n\<rparr>, None))))"

text \<open>\<open>DQN.__init__\<close>: the new object and what it printed.\<close>

definition DQN_init :: "params \<Rightarrow> (string \<Rightarrow> nat \<Rightarrow> fl) \<Rightarrow> filesystem \<Rightarrow> dqn \<times> message list" where
  "DQN_init p rnd fs =
     (let net = fresh_net p rnd in
      case load_file p of
        None \<Rightarrow> (net, [])
      | Some path \<Rightarrow>
          if fs path \<noteq> None then
            (case try_load path fs net of
               (net', None) \<Rightarrow> (net', [LoadingCheckpoint, LoadedModel (global_step net')])
             | (net', Some e) \<Rightarrow> (net', [LoadingCheckpoint, ErrorLoadingModel e]))
          else (net, [CouldNotFindModel path]))"


section \<open>Notions used to state the properties\<close>

text \<open>
  A one-hot action: length 4, one entry 1 and the others 0.
\<close>

definition one_hot :: "fl list \<Rightarrow> bool" where
  "one_hot a \<longleftrightarrow> list_ex (\<lambda>k. a = (replicate 4 (Fin 0))[k := Fin 1]) [0..<4]"

text \<open>
  The batch contract: five fields of one length, every state a non-empty grid of 6
  channels with as many cells as \<open>width * height\<close>, every action of length 4.
\<close>

definition obs_ok :: "params \<Rightarrow> fl list list list \<Rightarrow> bool" where
  "obs_ok p s =
     (case image_dims s of
        None \<Rightarrow> False
      | Some (w, c) \<Rightarrow> c = 6 \<and> length s * w = width p * height p)"

definition batch_ok ::
  "params \<Rightarrow> fl list list list list \<Rightarrow> fl list list \<Rightarrow> fl list \<Rightarrow> fl list list list list
     \<Rightarrow> fl list \<Rightarrow> bool" where
  "batch_ok p bat_s bat_a bat_t bat_n bat_r \<longleftrightarrow>
     length bat_a = length bat_s \<and> length bat_t = length bat_s \<and>
     length bat_n = length bat_s \<and> length bat_r = length bat_s \<and>
     list_all (obs_ok p) bat_s \<and> list_all (obs_ok p) bat_n \<and>
     list_all (\<lambda>a. length a = 4) bat_a"

text \<open>The shapes that \<open>__init__\<close> gives to the parameters.\<close>

definition has_arch :: "params \<Rightarrow> dqn \<Rightarrow> bool" where
  "has_arch p net \<longleftrightarrow>
     map (\<lambda>kv. shape (snd kv)) (state_dict net) =
       [[16, 6, 3, 3], [16], [32, 16, 3, 3], [32], [256, flat_size p], [256], [4, 256], [4]]"

text \<open>\<open>updated opt net k net'\<close>: \<open>k\<close> calls of \<open>train_step\<close> in a row, none of which
  raised, lead from \<open>net\<close> to \<open>net'\<close>.\<close>

inductive updated :: "backward_step \<Rightarrow> dqn \<Rightarrow> nat \<Rightarrow> dqn \<Rightarrow> bool" for opt :: backward_step and net :: dqn where
  no_call: "updated opt net 0 net"
| one_more: "updated opt net k net1 \<Longrightarrow>
             train_step opt net1 bat_s bat_a bat_t bat_n bat_r = Inr (net2, g, loss) \<Longrightarrow>
             updated opt net (Suc k) net2"

text \<open>
  The file-name convention read on the base name of the path (\<^verbatim>\<open>os.path.basename\<close>),
  to compare with \<open>step_of_path\<close>.
\<close>

definition basename :: "string \<Rightarrow> string" where
  "basename path = rev (takeWhile (\<lambda>c. c \<noteq> CHR ''/'') (rev path))"

definition step_of_base_name :: "string \<Rightarrow> error + int" where
  "step_of_base_name path = ebind (second_last (str_split CHR ''_'' (basename path))) py_int"

section \<open>Concrete inputs\<close>

text \<open>A 1x1 grid and a 2x1 grid, with the defaults of the training script.\<close>

definition small_grid :: params where
  "small_grid = \<lparr>width = 1, height = 1, lr = 1 / 5000, discount = 19 / 20, load_file = None\<rparr>"

definition wide_grid :: params where
  "wide_grid = \<lparr>width = 2, height = 1, lr = 1 / 5000, discount = 19 / 20, load_file = None\<rparr>"

definition all_zero :: "string \<Rightarrow> nat \<Rightarrow> fl" where
  "all_zero key i = Fin 0"

definition all_one :: "string \<Rightarrow> nat \<Rightarrow> fl" where
  "all_one key i = Fin 1"

text \<open>Parameters that are all zero but for the bias of the output layer: the network
  that answers every state with that bias.\<close>

definition output_bias :: "fl list \<Rightarrow> string \<Rightarrow> nat \<Rightarrow> fl" where
  "output_bias b key i = (if key = ''fc4.bias'' then b ! i else Fin 0)"

definition no_files :: filesystem where
  "no_files path = None"

text \<open>Two observations of the 1x1 grid (row, column, channel).\<close>

definition obs_a :: "fl list list list" where
  "obs_a = [[[Fin 1, Fin 0, Fin 0, Fin 0, Fin 0, Fin 0]]]"

definition obs_b :: "fl list list list" where
  "obs_b = [[[Fin 0, Fin 1, Fin 0, Fin 0, Fin 0, Fin 1]]]"

text \<open>An optimizer step that changes nothing, where the step itself does not matter.\<close>

definition no_update :: backward_step where
  "no_update net s a yj = net"

section \<open>Rounding and arithmetic\<close>

lemma round32_0 [simp]: "round32 0 = Fin 0"
  by (simp add: round32_def)

lemma round_half_even_int [simp]: "round_half_even (of_int k) = k"
  by (simp add: round_half_even_def)

lemma round_half_even_bounds: "\<bar>of_int (round_half_even z) - z\<bar> \<le> 1 / 2"
  by (auto simp: round_half_even_def Let_def)

lemma round_half_even_nonneg: "0 \<le> z \<Longrightarrow> 0 \<le> round_half_even z"
  by (auto simp: round_half_even_def Let_def)

lemma round_half_even_pos: "1 \<le> z \<Longrightarrow> 1 \<le> round_half_even z"
proof -
  assume "1 \<le> z"
  then have "1 \<le> \<lfloor>z\<rfloor>" by linarith
  then show ?thesis by (auto simp: round_half_even_def Let_def)
qed

lemma round32_1 [simp]: "round32 1 = Fin 1"
proof -
  have u: "2 powr (- 23 :: real) = 1 / 2 ^ 23"
    by (simp add: powr_minus powr_realpow [symmetric] field_simps)
  have "(1::real) / (1 / 2 ^ 23) = of_int (2 ^ 23)" by simp
  then have "round_half_even (1 / (1 / 2 ^ 23)) = 2 ^ 23"
    by (simp only: round_half_even_int)
  then show ?thesis
    by (simp add: round32_def u)
qed

lemma round32_not_NaN [simp]: "round32 x \<noteq> NaN"
  by (simp add: round32_def Let_def)

lemma round32_nonneg:
  assumes "0 \<le> x"
  shows "not_negative (round32 x)"
proof (cases "x = 0")
  case True
  then show ?thesis by (simp add: not_negative_def)
next
  case False
  define u :: real where "u = 2 powr (of_int (max \<lfloor>log 2 \<bar>x\<bar>\<rfloor> (- 126)) - 23)"
  have "0 < u" by (simp add: u_def)
  with assms have "0 \<le> x / u" by simp
  then have "0 \<le> round_half_even (x / u)" by (rule round_half_even_nonneg)
  with \<open>0 < u\<close> have "0 \<le> u * of_int (round_half_even (x / u))" by simp
  with False assms show ?thesis
    by (auto simp: round32_def Let_def u_def not_negative_def)
qed

lemma ulp_bound:
  assumes "x \<noteq> 0"
  shows "2 powr (of_int (max \<lfloor>log 2 \<bar>x\<bar>\<rfloor> (- 126)) - 23) \<le> max \<bar>x\<bar> 1"
proof (cases "\<lfloor>log 2 \<bar>x\<bar>\<rfloor> \<le> - 126")
  case True
  then have "max \<lfloor>log 2 \<bar>x\<bar>\<rfloor> (- 126) = - 126" by simp
  moreover have "2 powr (- 149 :: real) \<le> 2 powr 0" by (rule powr_mono) simp_all
  ultimately show ?thesis by simp
next
  case False
  then have m: "max \<lfloor>log 2 \<bar>x\<bar>\<rfloor> (- 126) = \<lfloor>log 2 \<bar>x\<bar>\<rfloor>" by simp
  have "2 powr (of_int \<lfloor>log 2 \<bar>x\<bar>\<rfloor> - 23) \<le> 2 powr (log 2 \<bar>x\<bar>)"
    by (rule powr_mono) (simp_all, linarith)
  also have "\<dots> = \<bar>x\<bar>" using assms by simp
  finally show ?thesis using m by simp
qed

lemma round32_finite:
  assumes "\<bar>x\<bar> < 2 ^ 127"
  shows "\<exists>y. round32 x = Fin y"
proof (cases "x = 0")
  case True
  then show ?thesis by simp
next
  case False
  define u :: real where "u = 2 powr (of_int (max \<lfloor>log 2 \<bar>x\<bar>\<rfloor> (- 126)) - 23)"
  define k where "k = round_half_even (x / u)"
  have u: "0 < u" "u \<le> max \<bar>x\<bar> 1" using ulp_bound [OF False] by (simp_all add: u_def)
  have "\<bar>of_int k - x / u\<bar> \<le> 1 / 2" unfolding k_def by (rule round_half_even_bounds)
  then have "\<bar>of_int k - x / u\<bar> * u \<le> 1 / 2 * u" using u(1) by (intro mult_right_mono) simp_all
  moreover have "u * of_int k - x = (of_int k - x / u) * u" using u(1) by (simp add: field_simps)
  ultimately have "\<bar>u * of_int k - x\<bar> \<le> u / 2"
    using u(1) by (simp add: abs_mult)
  then have "\<bar>u * of_int k\<bar> \<le> \<bar>x\<bar> + u / 2" by linarith
  also have "\<dots> < 2 ^ 127 + 2 ^ 127"
  proof -
    have "(1::real) < 2 ^ 127" by simp
    with assms u(2) have "u < 2 ^ 127" by (simp add: max_def split: if_splits)
    with u(1) assms show ?thesis by linarith
  qed
  finally have "\<bar>u * of_int k\<bar> < 2 ^ 128" by simp
  with False show ?thesis
    by (simp add: round32_def Let_def u_def k_def)
qed

lemma round32_positive:
  assumes "1 \<le> x" and "x < 2 ^ 127"
  shows "\<exists>y>0. round32 x = Fin y"
proof -
  define u :: real where "u = 2 powr (of_int (max \<lfloor>log 2 \<bar>x\<bar>\<rfloor> (- 126)) - 23)"
  have x0: "x \<noteq> 0" using assms by simp
  have u: "0 < u" "u \<le> max \<bar>x\<bar> 1" using ulp_bound [OF x0] by (simp_all add: u_def)
  with assms have "u \<le> x" by (simp add: max_def)
  with u(1) have "1 \<le> x / u" by simp
  then have "1 \<le> round_half_even (x / u)" by (rule round_half_even_pos)
  with u(1) have pos: "0 < u * of_int (round_half_even (x / u))" by simp
  from assms have "\<bar>x\<bar> < 2 ^ 127" by simp
  from round32_finite [OF this] obtain y where y: "round32 x = Fin y" ..
  with x0 pos have "0 < y"
    by (auto simp: round32_def Let_def u_def split: if_splits)
  with y show ?thesis by blast
qed

lemma is_fin_simps [simp]:
  "is_fin (Fin x)" "\<not> is_fin PInf" "\<not> is_fin NInf" "\<not> is_fin NaN"
  by (simp_all add: is_fin_def)

lemma is_fin_iff: "is_fin v \<longleftrightarrow> (\<exists>x. v = Fin x)"
  by (cases v) simp_all

lemma not_negative_simps [simp]:
  "not_negative (Fin x) \<longleftrightarrow> 0 \<le> x" "not_negative PInf" "\<not> not_negative NInf" "\<not> not_negative NaN"
  by (simp_all add: not_negative_def)

lemma to_f32_simps [simp]:
  "to_f32 (Fin x) = round32 x" "to_f32 PInf = PInf" "to_f32 NInf = NInf" "to_f32 NaN = NaN"
  by (simp_all add: to_f32_def)

lemma fadd_NaN_right [simp]: "fadd a NaN = NaN"
  by (cases a) simp_all

lemma fadd_zero_right [simp]: "fadd a (Fin 0) = a"
  by (cases a) simp_all

lemma fadd_zero_left [simp]: "fadd (Fin 0) a = a"
  by (cases a) simp_all

lemma fmul_NaN_right [simp]: "fmul a NaN = NaN"
  by (cases a) simp_all

lemma fmul_one_right [simp]: "fmul a (Fin 1) = a"
  by (cases a) simp_all

lemma fmul_zero_fin [simp]: "fmul (Fin 0) (Fin y) = Fin 0"
  by simp

lemma fmul_zero_left: "is_fin b \<Longrightarrow> fmul (Fin 0) b = Fin 0"
  by (cases b) simp_all

lemma fmul_zero_right: "is_fin a \<Longrightarrow> fmul a (Fin 0) = Fin 0"
  by (cases a) simp_all

lemma fsub_one_one [simp]: "fsub (Fin 1) (Fin 1) = Fin 0"
  by (simp add: fsub_def)

lemma fsub_self: "is_fin a \<Longrightarrow> fsub a a = Fin 0"
  by (cases a) (simp_all add: fsub_def)

lemma fsum_Nil [simp]: "fsum [] = Fin 0"
  by (simp add: fsum_def)

lemma foldl_fadd_NaN [simp]: "foldl fadd NaN vs = NaN"
  by (induction vs) simp_all

lemma fsum_NaN: "NaN \<in> set vs \<Longrightarrow> fsum vs = NaN"
proof -
  have "foldl fadd a vs = NaN" if "NaN \<in> set vs" for a
    using that by (induction vs arbitrary: a) auto
  then show "NaN \<in> set vs \<Longrightarrow> fsum vs = NaN" by (simp add: fsum_def)
qed

lemma fsum_zeros: "list_all (\<lambda>v. v = Fin 0) vs \<Longrightarrow> fsum vs = Fin 0"
proof -
  have "foldl fadd (Fin 0) vs = Fin 0" if "list_all (\<lambda>v. v = Fin 0) vs"
    using that by (induction vs) simp_all
  then show "list_all (\<lambda>v. v = Fin 0) vs \<Longrightarrow> fsum vs = Fin 0" by (simp add: fsum_def)
qed

lemma fsum_map_zero: "(\<And>x. x \<in> set xs \<Longrightarrow> f x = Fin 0) \<Longrightarrow> fsum (map f xs) = Fin 0"
  by (rule fsum_zeros) (simp add: list_all_iff)

lemma fsum_four: "fsum [a, b, c, d] = fadd (fadd (fadd a b) c) d"
  by (simp add: fsum_def)

lemma round32_int:
  assumes "\<bar>n\<bar> < 2 ^ 24"
  shows "round32 (of_int n) = Fin (of_int n)"
proof (cases "n = 0")
  case True
  then show ?thesis by simp
next
  case False
  define x :: real where "x = of_int n"
  define e where "e = \<lfloor>log 2 \<bar>x\<bar>\<rfloor>"
  from False have x1: "1 \<le> \<bar>x\<bar>" by (simp add: x_def)
  from assms have "\<bar>x\<bar> < of_int (2 ^ 24)" unfolding x_def
    by (metis of_int_abs of_int_less_iff)
  then have x2: "\<bar>x\<bar> < 2 ^ 24" by simp
  from x1 have "0 \<le> log 2 \<bar>x\<bar>" by simp
  then have e0: "0 \<le> e" by (simp add: e_def)
  from x1 x2 have "log 2 \<bar>x\<bar> < 24" by (simp add: log_less_iff)
  then have "e < 24" unfolding e_def by linarith
  define j where "j = nat (23 - e)"
  from e0 \<open>e < 24\<close> have ej: "(of_int e :: real) - 23 = - real j" by (simp add: j_def)
  have u: "(2::real) powr (of_int e - 23) = 1 / 2 ^ j"
    by (simp add: ej powr_minus powr_realpow field_simps)
  have "x / (1 / 2 ^ j) = of_int (n * 2 ^ j)" by (simp add: x_def)
  then have r: "round_half_even (x / (1 / 2 ^ j)) = n * 2 ^ j"
    by (simp only: round_half_even_int)
  have y: "1 / 2 ^ j * (of_int (n * 2 ^ j) :: real) = x" by (simp add: x_def)
  from x2 have big: "\<not> 2 ^ 128 \<le> \<bar>x\<bar>" by simp
  from False have xn: "x \<noteq> 0" by (simp add: x_def)
  from e0 have m: "max e (- 126) = e" by simp
  have "round32 x =
      (if 2 ^ 128 \<le> \<bar>1 / 2 ^ j * real_of_int (round_half_even (x / (1 / 2 ^ j)))\<bar>
       then (if 0 < x then PInf else NInf)
       else Fin (1 / 2 ^ j * of_int (round_half_even (x / (1 / 2 ^ j)))))"
    using xn by (simp only: round32_def Let_def e_def [symmetric] m u if_False)
  also have "\<dots> = Fin x"
    using big by (simp only: r y if_False)
  finally have "round32 x = Fin x" .
  then show ?thesis by (simp add: x_def)
qed

lemma round32_numeral [simp]:
  "(numeral w :: int) < 2 ^ 24 \<Longrightarrow> round32 (numeral w) = Fin (numeral w)"
  using round32_int [of "numeral w"] by simp

lemma round32_neg_numeral [simp]:
  "(numeral w :: int) < 2 ^ 24 \<Longrightarrow> round32 (- numeral w) = Fin (- numeral w)"
  using round32_int [of "- numeral w"] by simp

lemma round32_of_nat:
  "n < 2 ^ 24 \<Longrightarrow> round32 (real n) = Fin (real n)"
  using round32_int [of "int n"] by simp

section \<open>Sequencing and shapes\<close>

lemma ebind_Inr [simp]: "ebind (Inr v) f = f v"
  by (simp add: ebind_def)

lemma ebind_Inl [simp]: "ebind (Inl e) f = Inl e"
  by (simp add: ebind_def)

lemma ebind_eq_Inr: "ebind m f = Inr y \<longleftrightarrow> (\<exists>v. m = Inr v \<and> f v = Inr y)"
  by (cases m) simp_all

lemma mapM_Inr:
  "mapM f xs = Inr ys \<Longrightarrow> length ys = length xs \<and> (\<forall>i<length xs. f (xs ! i) = Inr (ys ! i))"
proof (induction xs arbitrary: ys)
  case Nil
  then show ?case by simp
next
  case (Cons x xs)
  from Cons.prems obtain y zs where y: "f x = Inr y" and zs: "mapM f xs = Inr zs" and ys: "ys = y # zs"
    by (auto simp: ebind_eq_Inr)
  from Cons.IH [OF zs] have len: "length zs = length xs" and nth: "\<forall>i<length xs. f (xs ! i) = Inr (zs ! i)"
    by simp_all
  show ?case
  proof (intro conjI allI impI)
    show "length ys = length (x # xs)" using len ys by simp
  next
    fix i assume "i < length (x # xs)"
    then show "f ((x # xs) ! i) = Inr (ys ! i)"
      using y nth ys by (cases i) simp_all
  qed
qed

lemma mapM_total:
  "list_all (\<lambda>x. \<exists>y. f x = Inr y) xs \<Longrightarrow> \<exists>ys. mapM f xs = Inr ys"
  by (induction xs) auto

lemma image_dims_Some:
  "image_dims x = Some (h, w) \<longleftrightarrow>
     x \<noteq> [] \<and> 0 < h \<and> 0 < w \<and> (\<forall>c\<in>set x. length c = h \<and> (\<forall>r\<in>set c. length r = w))"
  (is "?L \<longleftrightarrow> ?R")
proof
  assume ?L
  then show ?R
    by (auto simp: image_dims_def list_all_iff split: list.splits if_splits)
next
  assume r: ?R
  then obtain ch xs where x: "x = ch # xs" by (cases x) auto
  with r have "length ch = h" by simp
  with r obtain q qs where ch: "ch = q # qs" by (cases ch) auto
  with r x have "length q = w" by simp
  with r have "q \<noteq> []" by auto
  with r x ch show ?L
    by (auto simp: image_dims_def list_all_iff)
qed


lemma image_dims_map:
  "0 < c \<Longrightarrow> 0 < h \<Longrightarrow> 0 < w \<Longrightarrow>
   image_dims (map (\<lambda>k. map (\<lambda>i. map (\<lambda>j. f k i j) [0..<w]) [0..<h]) [0..<c]) = Some (h, w)"
  by (auto simp: image_dims_Some)

lemma permute_sample_Inr:
  assumes "image_dims s = Some (w, c)"
  shows "\<exists>x. permute_sample s = Inr x \<and> length x = c \<and> image_dims x = Some (length s, w)"
proof -
  from assms have "0 < c" "0 < w" "s \<noteq> []" by (auto simp: image_dims_Some)
  then show ?thesis using assms
    by (simp add: permute_sample_def image_dims_map)
qed

lemma Conv2d_Inr:
  assumes "image_dims x = Some (h, w)" and "length x = cin" and "0 < cout"
  shows "\<exists>y. Conv2d cin cout l x = Inr y \<and> length y = cout \<and> image_dims y = Some (h, w)"
proof -
  from assms have "0 < h" "0 < w" by (auto simp: image_dims_Some)
  then show ?thesis using assms
    by (simp add: Conv2d_def image_dims_map)
qed

lemma ReLU_image_dims:
  "image_dims (ReLU_image x) = image_dims x"
proof (cases "image_dims x")
  case None
  show ?thesis
  proof (cases "image_dims (ReLU_image x)")
    case None
    with \<open>image_dims x = None\<close> show ?thesis by simp
  next
    case (Some hw)
    obtain h w where hw: "hw = (h, w)" by (cases hw)
    with Some have "image_dims x = Some (h, w)"
      by (auto simp: image_dims_Some ReLU_image_def ReLU_def)
    with None show ?thesis by simp
  qed
next
  case (Some hw)
  obtain h w where hw: "hw = (h, w)" by (cases hw)
  with Some have "image_dims (ReLU_image x) = Some (h, w)"
    by (auto simp: image_dims_Some ReLU_image_def ReLU_def)
  with Some hw show ?thesis by simp
qed

lemma length_ReLU_image [simp]: "length (ReLU_image x) = length x"
  by (simp add: ReLU_image_def)

lemma length_ReLU [simp]: "length (ReLU v) = length v"
  by (simp add: ReLU_def)

lemma length_concat_const:
  "\<forall>r\<in>set xs. length r = n \<Longrightarrow> length (concat xs) = length xs * n"
  by (induction xs) simp_all

lemma length_flatten:
  assumes "image_dims x = Some (h, w)"
  shows "length (flatten x) = length x * h * w"
proof -
  from assms have rows: "\<forall>c\<in>set x. length c = h" and cols: "\<forall>c\<in>set x. \<forall>r\<in>set c. length r = w"
    by (auto simp: image_dims_Some)
  from rows have "length (concat x) = length x * h" by (rule length_concat_const)
  moreover from cols have "\<forall>r\<in>set (concat x). length r = w" by auto
  then have "length (concat (concat x)) = length (concat x) * w" by (rule length_concat_const)
  ultimately show ?thesis
    by (simp add: flatten_def)
qed

lemma Linear_Inr:
  "length v = nin \<Longrightarrow> \<exists>y. Linear nin nout l v = Inr y \<and> length y = nout"
  by (simp add: Linear_def)

lemma Linear_length:
  "Linear nin nout l v = Inr y \<Longrightarrow> length y = nout"
  by (auto simp: Linear_def split: if_splits)

lemma forward_sample_length:
  "forward_sample net x = Inr q \<Longrightarrow> length q = 4"
  by (auto simp: forward_sample_def ebind_eq_Inr dest: Linear_length)

lemma forward_sample_total:
  assumes "image_dims x = Some (h, w)" and "length x = 6" and "h * w = width (params net) * height (params net)"
  shows "\<exists>q. forward_sample net x = Inr q"
proof -
  from Conv2d_Inr [OF assms(1,2), of 16 "conv1 net"]
  obtain x1 where x1: "Conv2d 6 16 (conv1 net) x = Inr x1" "length x1 = 16" "image_dims x1 = Some (h, w)"
    by auto
  have "image_dims (ReLU_image x1) = Some (h, w)" "length (ReLU_image x1) = 16"
    using x1 by (simp_all add: ReLU_image_dims)
  from Conv2d_Inr [OF this, of 32 "conv2 net"]
  obtain x2 where x2: "Conv2d 16 32 (conv2 net) (ReLU_image x1) = Inr x2" "length x2 = 32" "image_dims x2 = Some (h, w)"
    by auto
  have "image_dims (ReLU_image x2) = Some (h, w)" using x2 by (simp add: ReLU_image_dims)
  then have "length (flatten (ReLU_image x2)) = 32 * h * w"
    using x2 by (simp add: length_flatten)
  with assms(3) have "length (flatten (ReLU_image x2)) = flat_size (params net)"
    by (simp add: flat_size_def)
  from Linear_Inr [OF this, of 256 "fc3 net"]
  obtain x3 where x3: "Linear (flat_size (params net)) 256 (fc3 net) (flatten (ReLU_image x2)) = Inr x3" "length x3 = 256"
    by auto
  then have "length (ReLU x3) = 256" by simp
  from Linear_Inr [OF this, of 4 "fc4 net"]
  obtain q where "Linear 256 4 (fc4 net) (ReLU x3) = Inr q" by auto
  with x1 x2 x3 show ?thesis
    by (simp add: forward_sample_def)
qed


lemma row_max_Inr: "row_max q = Inr m \<Longrightarrow> q \<noteq> [] \<and> m = fold fmax (tl q) (hd q)"
  by (cases q) (auto simp: row_max_def)

lemma row_max_total: "q \<noteq> [] \<Longrightarrow> \<exists>m. row_max q = Inr m"
  by (cases q) (auto simp: row_max_def)


lemma length_floats [simp]: "length (floats v) = length v"
  by (simp add: floats_def)

lemma length_floats2 [simp]: "length (floats2 m) = length m"
  by (simp add: floats2_def)

lemma length_floats4 [simp]: "length (floats4 b) = length b"
  by (simp add: floats4_def)

lemma nth_floats [simp]: "i < length v \<Longrightarrow> floats v ! i = to_f32 (v ! i)"
  by (simp add: floats_def)

lemma nth_floats2 [simp]: "i < length m \<Longrightarrow> floats2 m ! i = floats (m ! i)"
  by (simp add: floats2_def)

lemma nth_floats4 [simp]: "i < length b \<Longrightarrow> floats4 b ! i = floats3 (b ! i)"
  by (simp add: floats4_def)

lemma image_dims_floats3 [simp]: "image_dims (floats3 x) = image_dims x"
proof -
  have "image_dims (floats3 x) = Some hw \<longleftrightarrow> image_dims x = Some hw" for hw
    by (cases hw) (auto simp: image_dims_Some floats3_def floats2_def floats_def)
  then show ?thesis by (metis option.exhaust)
qed

lemma length_floats3 [simp]: "length (floats3 x) = length x"
  by (simp add: floats3_def)


lemma train_forward_Inr:
  assumes "train_forward net bat_s bat_a bat_t bat_n bat_r = Inr (s, yj, q_pred, loss)"
  shows "\<exists>n q_pred_all_actions. permute (floats4 bat_s) = Inr s \<and> permute (floats4 bat_n) = Inr n \<and>
           bellman_target net n (floats bat_t) (floats bat_r) = Inr yj \<and>
           forward net s = Inr q_pred_all_actions \<and>
           taken q_pred_all_actions (floats2 bat_a) = Inr q_pred \<and>
           MSELoss q_pred yj = Inr loss"
  using assms by (auto simp: train_forward_def ebind_eq_Inr)

lemma mapM_total_set:
  "(\<And>x. x \<in> set xs \<Longrightarrow> \<exists>y. f x = Inr y) \<Longrightarrow> \<exists>ys. mapM f xs = Inr ys"
  by (rule mapM_total) (simp add: list_all_iff)

lemma permute_forward_total:
  assumes "list_all (obs_ok (params net)) b"
  shows "\<exists>s q. permute (floats4 b) = Inr s \<and> forward net s = Inr q \<and> length s = length b \<and>
           length q = length b \<and> (\<forall>i<length b. length (q ! i) = 4)"
proof -
  have ok: "\<exists>w. image_dims x = Some (w, 6) \<and> length x * w = width (params net) * height (params net)"
    if "x \<in> set b" for x
    using assms that by (auto simp: list_all_iff obs_ok_def split: option.splits)
  have "\<exists>y. permute_sample x = Inr y" if "x \<in> set (floats4 b)" for x
  proof -
    from that obtain x0 where "x0 \<in> set b" "x = floats3 x0" by (auto simp: floats4_def)
    with ok [of x0] show ?thesis using permute_sample_Inr [of x] by auto
  qed
  then obtain s where s: "permute (floats4 b) = Inr s"
    unfolding permute_def using mapM_total_set [of "floats4 b" permute_sample] by blast
  note ps = mapM_Inr [OF s [unfolded permute_def]]
  have "\<exists>q. forward_sample net y = Inr q" if "y \<in> set s" for y
  proof -
    from that obtain i where i: "i < length b" "y = s ! i"
      using ps by (auto simp: in_set_conv_nth)
    then have py: "permute_sample (floats3 (b ! i)) = Inr y" using ps by simp
    from i have "b ! i \<in> set b" by simp
    from ok [OF this] obtain w where
      w: "image_dims (b ! i) = Some (w, 6)" "length (b ! i) * w = width (params net) * height (params net)"
      by auto
    from w(1) have "image_dims (floats3 (b ! i)) = Some (w, 6)" by simp
    from permute_sample_Inr [OF this] py
    have "image_dims y = Some (length (b ! i), w)" "length y = 6" by auto
    then show ?thesis using w(2) by (rule forward_sample_total)
  qed
  then obtain q where q: "forward net s = Inr q"
    unfolding forward_def using mapM_total_set [of s "forward_sample net"] by blast
  note fq = mapM_Inr [OF q [unfolded forward_def]]
  have "length (q ! i) = 4" if "i < length b" for i
    using fq ps that by (auto intro: forward_sample_length)
  with s q ps fq show ?thesis by auto
qed

lemma bellman_target_total:
  assumes "forward net s = Inr q" and "\<forall>i<length q. length (q ! i) = 4"
    and "length bat_t = length q" and "length bat_r = length q"
  shows "\<exists>yj. bellman_target net s bat_t bat_r = Inr yj \<and> length yj = length q"
proof -
  have "\<exists>m. row_max r = Inr m" if "r \<in> set q" for r
  proof -
    from that assms(2) have "length r = 4" by (auto simp: in_set_conv_nth)
    then have "r \<noteq> []" by auto
    then show ?thesis by (rule row_max_total)
  qed
  then obtain q_t where qt: "mapM row_max q = Inr q_t"
    using mapM_total_set [of q row_max] by blast
  then have "length q_t = length q" using mapM_Inr by blast
  with assms qt show ?thesis
    by (simp add: bellman_target_def ew_def)
qed

lemma taken_total:
  assumes "length q = length bat_a" and "\<forall>i<length q. length (q ! i) = 4"
    and "list_all (\<lambda>a. length a = 4) bat_a"
  shows "\<exists>q_pred. taken q bat_a = Inr q_pred \<and> length q_pred = length q"
proof -
  have "\<exists>v. taken_row qa = Inr v" if "qa \<in> set (zip q bat_a)" for qa
  proof -
    from that obtain i where "i < length q" "qa = (q ! i, bat_a ! i)"
      using assms(1) by (auto simp: in_set_conv_nth)
    with assms show ?thesis
      by (simp add: taken_row_def ew_def list_all_length)
  qed
  then obtain q_pred where qp: "mapM taken_row (zip q bat_a) = Inr q_pred"
    using mapM_total_set [of "zip q bat_a" taken_row] by blast
  then have "length q_pred = length q" using mapM_Inr [OF qp] assms(1) by simp
  with qp assms(1) show ?thesis by (simp add: taken_def)
qed

lemma train_forward_total:
  assumes "batch_ok (params net) bat_s bat_a bat_t bat_n bat_r"
  shows "\<exists>s yj q_pred loss. train_forward net bat_s bat_a bat_t bat_n bat_r = Inr (s, yj, q_pred, loss)"
proof -
  from assms have lens: "length bat_a = length bat_s" "length bat_t = length bat_s"
      "length bat_n = length bat_s" "length bat_r = length bat_s"
    and oks: "list_all (obs_ok (params net)) bat_s" "list_all (obs_ok (params net)) bat_n"
    and acts: "list_all (\<lambda>a. length a = 4) bat_a"
    by (simp_all add: batch_ok_def)
  from permute_forward_total [OF oks(1)] obtain s q where
    s: "permute (floats4 bat_s) = Inr s" "forward net s = Inr q" "length q = length bat_s"
       "\<forall>i<length bat_s. length (q ! i) = 4"
    by blast
  from permute_forward_total [OF oks(2)] obtain n qn where
    n: "permute (floats4 bat_n) = Inr n" "forward net n = Inr qn" "length qn = length bat_n"
       "\<forall>i<length bat_n. length (qn ! i) = 4"
    by blast
  from bellman_target_total [OF n(2), of "floats bat_t" "floats bat_r"] n lens obtain yj where
    yj: "bellman_target net n (floats bat_t) (floats bat_r) = Inr yj" "length yj = length bat_s"
    by auto
  from acts have "list_all (\<lambda>a. length a = 4) (floats2 bat_a)"
    by (simp add: list_all_iff floats2_def)
  from taken_total [of q "floats2 bat_a"] s lens this obtain q_pred where
    qp: "taken q (floats2 bat_a) = Inr q_pred" "length q_pred = length bat_s"
    by auto
  from yj qp have "\<exists>loss. MSELoss q_pred yj = Inr loss"
    by (simp add: MSELoss_def)
  then obtain loss where "MSELoss q_pred yj = Inr loss" ..
  with s n yj qp show ?thesis
    by (simp add: train_forward_def)
qed

text \<open>A batch of two rows on the 1x1 grid; the first row is terminal with reward 5.\<close>

section \<open>A network that answers with its output bias\<close>

lemma map_const_on: "(\<And>x. x \<in> set xs \<Longrightarrow> f x = c) \<Longrightarrow> map f xs = replicate (length xs) c"
  by (induction xs) simp_all

lemma conv_index_bound:
  fixes oc c a d cin cout :: nat
  assumes "oc < cout" and "c < cin" and "a < 3" and "d < 3"
  shows "((oc * cin + c) * 3 + a) * 3 + d < cout * cin * 9"
proof -
  define n where "n = oc * cin + c"
  define m where "m = cout * cin"
  from assms(1) have "Suc oc * cin \<le> cout * cin" by (intro mult_le_mono1) simp
  with assms(2) have "n < m" by (simp add: n_def m_def)
  then have "9 * n + 9 \<le> 9 * m" by simp
  moreover have "(n * 3 + a) * 3 + d = 9 * n + (3 * a + d)" by (simp add: algebra_simps)
  ultimately have "(n * 3 + a) * 3 + d < m * 9" using assms(3,4) by simp
  then show ?thesis by (simp only: n_def m_def)
qed

lemma linear_index_bound:
  fixes oc k nin nout :: nat
  assumes "oc < nout" and "k < nin"
  shows "oc * nin + k < nout * nin"
proof -
  from assms(1) have "Suc oc * nin \<le> nout * nin" by (intro mult_le_mono1) simp
  with assms(2) show ?thesis by simp
qed

lemma padded_fin:
  "list_all (list_all is_fin) m \<Longrightarrow> is_fin (padded m i j)"
  by (auto simp: padded_def list_all_length)

lemma Conv2d_zero:
  assumes dims: "image_dims x = Some (h, w)" and len: "length x = cin"
    and fin: "list_all (list_all (list_all is_fin)) x"
    and wz: "\<And>idx. idx < cout * cin * 9 \<Longrightarrow> data (weight l) ! idx = Fin 0"
    and bz: "\<And>oc. oc < cout \<Longrightarrow> data (bias l) ! oc = Fin 0"
  shows "Conv2d cin cout l x = Inr (replicate cout (replicate h (replicate w (Fin 0))))"
proof -
  have cell: "fadd (data (bias l) ! oc)
        (fsum (map (\<lambda>c. fsum (map (\<lambda>a. fsum (map (\<lambda>d.
           fmul (data (weight l) ! (((oc * cin + c) * 3 + a) * 3 + d))
             (padded (x ! c) (int i + int a - 1) (int j + int d - 1)))
         [0..<3])) [0..<3])) [0..<cin])) = Fin 0"
    if oc: "oc < cout" for oc i j
  proof -
    have "fmul (data (weight l) ! (((oc * cin + c) * 3 + a) * 3 + d))
            (padded (x ! c) (int i + int a - 1) (int j + int d - 1)) = Fin 0"
      if "c < cin" "a < 3" "d < 3" for c a d
    proof -
      from that oc have "data (weight l) ! (((oc * cin + c) * 3 + a) * 3 + d) = Fin 0"
        by (intro wz conv_index_bound)
      moreover from fin len that(1) have "list_all (list_all is_fin) (x ! c)"
        by (simp add: list_all_length)
      then have "is_fin (padded (x ! c) (int i + int a - 1) (int j + int d - 1))"
        by (rule padded_fin)
      ultimately show ?thesis by (simp add: fmul_zero_left)
    qed
    then have "fsum (map (\<lambda>c. fsum (map (\<lambda>a. fsum (map (\<lambda>d.
           fmul (data (weight l) ! (((oc * cin + c) * 3 + a) * 3 + d))
             (padded (x ! c) (int i + int a - 1) (int j + int d - 1)))
         [0..<3])) [0..<3])) [0..<cin]) = Fin 0"
      by (intro fsum_map_zero) simp_all
    with bz [OF oc] show ?thesis by simp
  qed
  have "map (\<lambda>oc. map (\<lambda>i. map (\<lambda>j.
          fadd (data (bias l) ! oc)
            (fsum (map (\<lambda>c. fsum (map (\<lambda>a. fsum (map (\<lambda>d.
               fmul (data (weight l) ! (((oc * cin + c) * 3 + a) * 3 + d))
                 (padded (x ! c) (int i + int a - 1) (int j + int d - 1)))
             [0..<3])) [0..<3])) [0..<cin])))
          [0..<w]) [0..<h]) [0..<cout] =
        replicate cout (replicate h (replicate w (Fin 0)))"
    using cell by (auto intro!: nth_equalityI)
  with dims len show ?thesis by (simp add: Conv2d_def)
qed

lemma ReLU_image_zero:
  "ReLU_image (replicate c (replicate h (replicate w (Fin 0)))) =
     replicate c (replicate h (replicate w (Fin 0)))"
  by (simp add: ReLU_image_def ReLU_def)

lemma image_dims_replicate:
  "0 < c \<Longrightarrow> 0 < h \<Longrightarrow> 0 < w \<Longrightarrow> image_dims (replicate c (replicate h (replicate w z))) = Some (h, w)"
  by (simp add: image_dims_Some)

lemma flatten_zero:
  "list_all (\<lambda>v. v = Fin 0) (flatten (replicate c (replicate h (replicate w (Fin 0)))))"
  by (auto simp: flatten_def list_all_iff)

lemma Linear_zero:
  assumes len: "length v = nin" and fin: "list_all is_fin v"
    and wz: "\<And>idx. idx < nout * nin \<Longrightarrow> data (weight l) ! idx = Fin 0"
  shows "Linear nin nout l v = Inr (map (\<lambda>oc. data (bias l) ! oc) [0..<nout])"
proof -
  have "fsum (map (\<lambda>k. fmul (data (weight l) ! (oc * nin + k)) (v ! k)) [0..<nin]) = Fin 0"
    if oc: "oc < nout" for oc
  proof (rule fsum_map_zero)
    fix k assume "k \<in> set [0..<nin]"
    then have k: "k < nin" by simp
    with oc have "data (weight l) ! (oc * nin + k) = Fin 0" by (intro wz linear_index_bound)
    moreover from fin len k have "is_fin (v ! k)" by (simp add: list_all_length)
    ultimately show "fmul (data (weight l) ! (oc * nin + k)) (v ! k) = Fin 0"
      by (simp add: fmul_zero_left)
  qed
  with len show ?thesis by (simp add: Linear_def)
qed

lemma fresh_tensor_nth:
  "i < prod_list shp \<Longrightarrow> data (fresh_tensor rnd key shp) ! i = rnd key i"
  by (simp add: fresh_tensor_def)

lemma forward_sample_output_bias:
  assumes dims: "image_dims x = Some (h, w)" and len: "length x = 6"
    and size: "h * w = width p * height p"
    and fin: "list_all (list_all (list_all is_fin)) x"
    and b: "length b = 4"
  shows "forward_sample (fresh_net p (output_bias b)) x = Inr b"
proof -
  let ?net = "fresh_net p (output_bias b)"
  from dims have hw: "0 < h" "0 < w" by (auto simp: image_dims_Some)
  have c1: "Conv2d 6 16 (conv1 ?net) x = Inr (replicate 16 (replicate h (replicate w (Fin 0))))"
    using dims len fin
    by (rule Conv2d_zero) (simp_all add: fresh_net_def fresh_tensor_nth output_bias_def)
  have z1: "list_all (list_all (list_all is_fin)) (replicate 16 (replicate h (replicate w (Fin 0))))"
    by (simp add: list_all_iff)
  have c2: "Conv2d 16 32 (conv2 ?net) (replicate 16 (replicate h (replicate w (Fin 0)))) =
      Inr (replicate 32 (replicate h (replicate w (Fin 0))))"
    using image_dims_replicate [of 16 h w "Fin 0"] hw z1
    by (intro Conv2d_zero) (simp_all add: fresh_net_def fresh_tensor_nth output_bias_def)
  let ?v = "flatten (replicate 32 (replicate h (replicate w (Fin 0))))"
  have lv: "length ?v = flat_size (params ?net)"
    using length_flatten [OF image_dims_replicate [of 32 h w "Fin 0"]] hw size
    by (simp add: flat_size_def fresh_net_def)
  have fv: "list_all is_fin ?v"
    using flatten_zero [of 32 h w] by (auto simp: list_all_iff)
  have "Linear (flat_size (params ?net)) 256 (fc3 ?net) ?v =
      Inr (map (\<lambda>oc. data (bias (fc3 ?net)) ! oc) [0..<256])"
    using lv fv
    by (rule Linear_zero) (simp add: fresh_net_def fresh_tensor_nth output_bias_def)
  moreover have "map (\<lambda>oc. data (bias (fc3 ?net)) ! oc) [0..<256] = replicate 256 (Fin 0)"
    by (rule nth_equalityI) (simp_all add: fresh_net_def fresh_tensor_nth output_bias_def)
  ultimately have f3: "Linear (flat_size (params ?net)) 256 (fc3 ?net) ?v = Inr (replicate 256 (Fin 0))"
    by simp
  have r3: "ReLU (replicate 256 (Fin 0)) = replicate 256 (Fin 0)" by (simp add: ReLU_def)
  have "Linear 256 4 (fc4 ?net) (replicate 256 (Fin 0)) =
      Inr (map (\<lambda>oc. data (bias (fc4 ?net)) ! oc) [0..<4])"
    by (rule Linear_zero) (simp_all add: fresh_net_def fresh_tensor_nth output_bias_def list_all_iff)
  moreover have "map (\<lambda>oc. data (bias (fc4 ?net)) ! oc) [0..<4] = map (\<lambda>i. b ! i) [0..<length b]"
    using b by (simp add: fresh_net_def fresh_tensor_nth output_bias_def)
  ultimately have f4: "Linear 256 4 (fc4 ?net) (replicate 256 (Fin 0)) = Inr b"
    by (simp add: map_nth)
  from c1 c2 f3 f4 show ?thesis
    by (simp add: forward_sample_def ReLU_image_zero r3)
qed

lemma params_fresh_net [simp]: "params (fresh_net p rnd) = p"
  by (simp add: fresh_net_def)

lemma global_step_fresh_net [simp]: "global_step (fresh_net p rnd) = 0"
  by (simp add: fresh_net_def)

lemma discount_small_grid [simp]: "discount small_grid = 19 / 20"
  by (simp add: small_grid_def)

lemma round32_discount: "is_fin (round32 (19 / 20))"
  using round32_finite [of "19 / 20"] by auto

lemma floats3_obs_a [simp]: "floats3 obs_a = obs_a"
  by (simp add: floats3_def floats2_def floats_def obs_a_def)

lemma floats3_obs_b [simp]: "floats3 obs_b = obs_b"
  by (simp add: floats3_def floats2_def floats_def obs_b_def)

lemma permute_obs_a [simp]:
  "permute_sample obs_a = Inr [[[Fin 1]], [[Fin 0]], [[Fin 0]], [[Fin 0]], [[Fin 0]], [[Fin 0]]]"
  by (simp add: permute_sample_def image_dims_def obs_a_def upt_rec)

lemma permute_obs_b [simp]:
  "permute_sample obs_b = Inr [[[Fin 0]], [[Fin 1]], [[Fin 0]], [[Fin 0]], [[Fin 0]], [[Fin 1]]]"
  by (simp add: permute_sample_def image_dims_def obs_b_def upt_rec)

lemma forward_small_grid:
  assumes "length b = 4" and "is_fin c0" "is_fin c1" "is_fin c2" "is_fin c3" "is_fin c4" "is_fin c5"
  shows "forward_sample (fresh_net small_grid (output_bias b))
           [[[c0]], [[c1]], [[c2]], [[c3]], [[c4]], [[c5]]] = Inr b"
proof (rule forward_sample_output_bias [where h = 1 and w = 1])
  show "image_dims [[[c0]], [[c1]], [[c2]], [[c3]], [[c4]], [[c5]]] = Some (1, 1)"
    by (simp add: image_dims_def)
  show "1 * 1 = width small_grid * height small_grid" by (simp add: small_grid_def)
qed (use assms in simp_all)

section \<open>The Bellman target\<close>




section \<open>The prediction for the action taken\<close>

lemma one_hot_cases:
  "one_hot a \<longleftrightarrow> a = [Fin 1, Fin 0, Fin 0, Fin 0] \<or> a = [Fin 0, Fin 1, Fin 0, Fin 0] \<or>
     a = [Fin 0, Fin 0, Fin 1, Fin 0] \<or> a = [Fin 0, Fin 0, Fin 0, Fin 1]"
proof -
  have "[0..<4] = [0, 1, 2, 3]" by (simp add: upt_rec)
  moreover have "replicate 4 (Fin 0) = [Fin 0, Fin 0, Fin 0, Fin 0]" by (simp add: numeral_eq_Suc)
  ultimately show ?thesis by (auto simp: one_hot_def)
qed

lemma floats_one_hot: "one_hot a \<Longrightarrow> floats a = a"
  by (auto simp: one_hot_cases floats_def)

lemma length_four:
  "length q = 4 \<Longrightarrow> \<exists>a b c d. q = [a, b, c, d]"
  by (auto simp: numeral_eq_Suc length_Suc_conv)

lemma four_cases: "j < 4 \<longleftrightarrow> j = 0 \<or> j = 1 \<or> j = 2 \<or> j = (3::nat)"
  by auto

lemma taken_row_one_hot:
  assumes "length q = 4" and "one_hot a" and "k < 4" and "a ! k = Fin 1"
    and "\<forall>j<4. j \<noteq> k \<longrightarrow> is_fin (q ! j)"
  shows "taken_row (q, a) = Inr (q ! k)"
proof -
  from assms(1) obtain q0 q1 q2 q3 where q: "q = [q0, q1, q2, q3]"
    using length_four by blast
  have fin: "is_fin (q ! j)" if "j < 4" "j \<noteq> k" for j
    using assms(5) that by blast
  from assms(3) consider "k = 0" | "k = 1" | "k = 2" | "k = 3" by (auto simp: four_cases)
  then show ?thesis
  proof cases
    case 1
    with assms(2,4) have a: "a = [Fin 1, Fin 0, Fin 0, Fin 0]" by (auto simp: one_hot_cases)
    from fin [of 1] fin [of 2] fin [of 3] 1 q have "is_fin q1" "is_fin q2" "is_fin q3" by simp_all
    with a q 1 show ?thesis
      by (simp add: taken_row_def ew_def fsum_four fmul_zero_right)
  next
    case 2
    with assms(2,4) have a: "a = [Fin 0, Fin 1, Fin 0, Fin 0]" by (auto simp: one_hot_cases)
    from fin [of 0] fin [of 2] fin [of 3] 2 q have "is_fin q0" "is_fin q2" "is_fin q3" by simp_all
    with a q 2 show ?thesis
      by (simp add: taken_row_def ew_def fsum_four fmul_zero_right)
  next
    case 3
    with assms(2,4) have a: "a = [Fin 0, Fin 0, Fin 1, Fin 0]" by (auto simp: one_hot_cases)
    from fin [of 0] fin [of 1] fin [of 3] 3 q have "is_fin q0" "is_fin q1" "is_fin q3" by simp_all
    with a q 3 show ?thesis
      by (simp add: taken_row_def ew_def fsum_four fmul_zero_right)
  next
    case 4
    with assms(2,4) have a: "a = [Fin 0, Fin 0, Fin 0, Fin 1]" by (auto simp: one_hot_cases)
    from fin [of 0] fin [of 1] fin [of 2] 4 q have "is_fin q0" "is_fin q1" "is_fin q2" by simp_all
    with a q 4 show ?thesis
      by (simp add: taken_row_def ew_def fsum_four fmul_zero_right)
  qed
qed

lemma one_hot_unique:
  assumes "one_hot a"
  shows "\<exists>k<4. a ! k = Fin 1 \<and> (\<forall>j<4. a ! j = Fin 1 \<longrightarrow> j = k)"
proof -
  from assms consider "a = [Fin 1, Fin 0, Fin 0, Fin 0]" | "a = [Fin 0, Fin 1, Fin 0, Fin 0]"
    | "a = [Fin 0, Fin 0, Fin 1, Fin 0]" | "a = [Fin 0, Fin 0, Fin 0, Fin 1]"
    by (auto simp: one_hot_cases)
  then show ?thesis
  proof cases
    case 1 then show ?thesis by (intro exI [of _ 0]) (auto simp: four_cases)
  next
    case 2 then show ?thesis by (intro exI [of _ 1]) (auto simp: four_cases)
  next
    case 3 then show ?thesis by (intro exI [of _ 2]) (auto simp: four_cases)
  next
    case 4 then show ?thesis by (intro exI [of _ 3]) (auto simp: four_cases)
  qed
qed

lemma taken_Inr:
  assumes "taken q bat_a = Inr q_pred"
  shows "length q = length bat_a \<and> length q_pred = length bat_a \<and>
         (\<forall>i<length bat_a. taken_row (q ! i, bat_a ! i) = Inr (q_pred ! i))"
proof -
  from assms have len: "length q = length bat_a" and m: "mapM taken_row (zip q bat_a) = Inr q_pred"
    by (auto simp: taken_def split: if_splits)
  from mapM_Inr [OF m] len show ?thesis by simp
qed

text \<open>
  Claim C2, amended. For every batch on which steps 1 to 5 of \<open>train_step\<close> complete and
  every row \<open>i\<close> whose action is one-hot of length 4: the prediction for the action
  taken is the sum over the actions of \<open>q * action\<close> in 32-bit arithmetic, where \<open>q\<close> is
  the raw output of the network on the permuted state of the row; the action is 1 at
  exactly one index; and when the outputs at the other three indices are finite, the
  prediction is the raw output at that index.
\<close>

theorem taken_one_hot:
  assumes "train_forward net bat_s bat_a bat_t bat_n bat_r = Inr (s, yj, q_pred, loss)"
    and "i < length bat_s" and "one_hot (bat_a ! i)"
  shows "\<exists>x q k. permute_sample (floats3 (bat_s ! i)) = Inr x \<and> forward_sample net x = Inr q \<and>
           length q = 4 \<and>
           q_pred ! i = fsum (map2 fmul q (bat_a ! i)) \<and>
           k < 4 \<and> bat_a ! i ! k = Fin 1 \<and> (\<forall>j<4. bat_a ! i ! j = Fin 1 \<longrightarrow> j = k) \<and>
           ((\<forall>j<4. j \<noteq> k \<longrightarrow> is_fin (q ! j)) \<longrightarrow> q_pred ! i = q ! k)"
proof -
  from train_forward_Inr [OF assms(1)] obtain qa where
    s: "permute (floats4 bat_s) = Inr s" and qa: "forward net s = Inr qa" and
    t: "taken qa (floats2 bat_a) = Inr q_pred"
    by auto
  note ps = mapM_Inr [OF s [unfolded permute_def]]
  note fq = mapM_Inr [OF qa [unfolded forward_def]]
  note tk = taken_Inr [OF t]
  from ps assms(2) have x: "permute_sample (floats3 (bat_s ! i)) = Inr (s ! i)"
    by (simp add: floats4_def)
  from fq ps assms(2) have q: "forward_sample net (s ! i) = Inr (qa ! i)"
    by (simp add: floats4_def)
  then have len: "length (qa ! i) = 4" by (rule forward_sample_length)
  from tk fq ps assms(2) have i: "i < length bat_a" by (simp add: floats4_def floats2_def)
  with assms(3) have a: "floats2 bat_a ! i = bat_a ! i"
    by (simp add: floats2_def floats_one_hot)
  from tk i have "taken_row (qa ! i, floats2 bat_a ! i) = Inr (q_pred ! i)"
    by (simp add: floats2_def)
  with a have row: "taken_row (qa ! i, bat_a ! i) = Inr (q_pred ! i)"
    by simp
  from one_hot_unique [OF assms(3)] obtain k where
    k: "k < 4" "bat_a ! i ! k = Fin 1" "\<forall>j<4. bat_a ! i ! j = Fin 1 \<longrightarrow> j = k"
    by blast
  have v: "q_pred ! i = qa ! i ! k" if "\<forall>j<4. j \<noteq> k \<longrightarrow> is_fin (qa ! i ! j)"
    using taken_row_one_hot [OF len assms(3) k(1,2) that] row by simp
  from assms(3) have "length (bat_a ! i) = 4" by (auto simp: one_hot_cases)
  with row len have "q_pred ! i = fsum (map2 fmul (qa ! i) (bat_a ! i))"
    by (simp add: taken_row_def ew_def)
  with x q len k v show ?thesis by blast
qed

text \<open>The first row of the batch takes action 1, and the network answers with the four
  different values 1, 2, 3, 4.\<close>

theorem taken_one_hot_witness:
  "\<exists>s yj q_pred loss.
     train_forward (fresh_net small_grid (output_bias [Fin 1, Fin 2, Fin 3, Fin 4]))
       [obs_a, obs_b] [[Fin 0, Fin 1, Fin 0, Fin 0], [Fin 1, Fin 0, Fin 0, Fin 0]] [Fin 1, Fin 0]
       [obs_b, obs_a] [Fin 5, Fin (- 1)] = Inr (s, yj, q_pred, loss) \<and>
     forward_sample (fresh_net small_grid (output_bias [Fin 1, Fin 2, Fin 3, Fin 4]))
       [[[Fin 1]], [[Fin 0]], [[Fin 0]], [[Fin 0]], [[Fin 0]], [[Fin 0]]] =
         Inr [Fin 1, Fin 2, Fin 3, Fin 4] \<and>
     q_pred ! 0 = Fin 2"
proof -
  let ?net = "fresh_net small_grid (output_bias [Fin 1, Fin 2, Fin 3, Fin 4])"
  let ?acts = "[[Fin 0, Fin 1, Fin 0, Fin 0], [Fin 1, Fin 0, Fin 0, Fin 0]]"
  have "batch_ok (params ?net) [obs_a, obs_b] ?acts [Fin 1, Fin 0] [obs_b, obs_a] [Fin 5, Fin (- 1)]"
    by (simp add: batch_ok_def obs_ok_def image_dims_def obs_a_def obs_b_def small_grid_def)
  from train_forward_total [OF this] obtain s yj q_pred loss where
    tf: "train_forward ?net [obs_a, obs_b] ?acts [Fin 1, Fin 0] [obs_b, obs_a] [Fin 5, Fin (- 1)] =
           Inr (s, yj, q_pred, loss)"
    by blast
  have fw: "forward_sample ?net [[[Fin 1]], [[Fin 0]], [[Fin 0]], [[Fin 0]], [[Fin 0]], [[Fin 0]]] =
      Inr [Fin 1, Fin 2, Fin 3, Fin 4]"
    by (rule forward_small_grid) simp_all
  have i: "0 < length [obs_a, obs_b]" by simp
  have hot: "one_hot (?acts ! 0)" by (simp add: one_hot_cases)
  from taken_one_hot [OF tf i hot] obtain x q k where
    x: "permute_sample (floats3 ([obs_a, obs_b] ! 0)) = Inr x" and
    q: "forward_sample ?net x = Inr q" and
    u: "\<forall>j<4. ?acts ! 0 ! j = Fin 1 \<longrightarrow> j = k" and
    v: "(\<forall>j<4. j \<noteq> k \<longrightarrow> is_fin (q ! j)) \<longrightarrow> q_pred ! 0 = q ! k"
    by blast
  from x have "x = [[[Fin 1]], [[Fin 0]], [[Fin 0]], [[Fin 0]], [[Fin 0]], [[Fin 0]]]" by simp
  with q fw have qv: "q = [Fin 1, Fin 2, Fin 3, Fin 4]" by simp
  from u have "(1::nat) < 4 \<longrightarrow> ?acts ! 0 ! 1 = Fin 1 \<longrightarrow> 1 = k" by blast
  then have k: "k = 1" by simp
  have "is_fin (q ! j)" if "j < 4" for j
    using that qv by (auto simp: four_cases)
  with v k qv have "q_pred ! 0 = Fin 2" by simp
  with tf fw show ?thesis by blast
qed

text \<open>
  Without the finiteness of the other outputs the prediction is not the raw output: a
  network whose output for action 1 is infinite, on a row that takes action 0. The raw
  output for action 0 is 3; the product of the infinite output with 0 is not a number,
  and neither is the sum.
\<close>

theorem taken_not_raw_output:
  "forward_sample (fresh_net small_grid (output_bias [Fin 3, NInf, Fin 0, Fin 0]))
     [[[Fin 1]], [[Fin 0]], [[Fin 0]], [[Fin 0]], [[Fin 0]], [[Fin 0]]] =
       Inr [Fin 3, NInf, Fin 0, Fin 0] \<and>
   train_forward (fresh_net small_grid (output_bias [Fin 3, NInf, Fin 0, Fin 0]))
     [obs_a] [[Fin 1, Fin 0, Fin 0, Fin 0]] [Fin 1] [obs_b] [Fin 5] =
   Inr ([[[[Fin 1]], [[Fin 0]], [[Fin 0]], [[Fin 0]], [[Fin 0]], [[Fin 0]]]], [Fin 5], [NaN], NaN)"
proof -
  let ?net = "fresh_net small_grid (output_bias [Fin 3, NInf, Fin 0, Fin 0])"
  have fa: "forward_sample ?net [[[Fin 1]], [[Fin 0]], [[Fin 0]], [[Fin 0]], [[Fin 0]], [[Fin 0]]] =
      Inr [Fin 3, NInf, Fin 0, Fin 0]"
    by (rule forward_small_grid) simp_all
  have fb: "forward_sample ?net [[[Fin 0]], [[Fin 1]], [[Fin 0]], [[Fin 0]], [[Fin 0]], [[Fin 1]]] =
      Inr [Fin 3, NInf, Fin 0, Fin 0]"
    by (rule forward_small_grid) simp_all
  from round32_discount obtain d where d: "round32 (19 / 20) = Fin d"
    by (auto simp: is_fin_iff)
  have "train_forward ?net [obs_a] [[Fin 1, Fin 0, Fin 0, Fin 0]] [Fin 1] [obs_b] [Fin 5] =
      Inr ([[[[Fin 1]], [[Fin 0]], [[Fin 0]], [[Fin 0]], [[Fin 0]], [[Fin 0]]]], [Fin 5], [NaN], NaN)"
    by (simp add: train_forward_def permute_def floats4_def floats2_def floats_def
        bellman_target_def forward_def fa fb row_max_def ew_def d taken_def taken_row_def
        fsum_def MSELoss_def fsub_def)
  with fa show ?thesis by simp
qed

section \<open>The loss\<close>

lemma fadd_fin_not_NaN: "is_fin a \<Longrightarrow> is_fin b \<Longrightarrow> fadd a b \<noteq> NaN"
  by (cases a; cases b) simp_all

lemma fsub_fin_not_NaN: "is_fin a \<Longrightarrow> is_fin b \<Longrightarrow> fsub a b \<noteq> NaN"
  by (cases a; cases b) (simp_all add: fsub_def)

lemma fmul_self_not_negative: "d \<noteq> NaN \<Longrightarrow> not_negative (fmul d d)"
  by (cases d) (simp_all add: round32_nonneg)

lemma fadd_not_negative: "not_negative a \<Longrightarrow> not_negative b \<Longrightarrow> not_negative (fadd a b)"
  by (cases a; cases b) (simp_all add: round32_nonneg)

lemma foldl_fadd_not_negative:
  "not_negative a \<Longrightarrow> list_all not_negative vs \<Longrightarrow> not_negative (foldl fadd a vs)"
  by (induction vs arbitrary: a) (simp_all add: fadd_not_negative)

lemma fsum_not_negative: "list_all not_negative vs \<Longrightarrow> not_negative (fsum vs)"
  by (simp add: fsum_def foldl_fadd_not_negative)

lemma fdiv_not_negative: "not_negative a \<Longrightarrow> 0 < y \<Longrightarrow> not_negative (fdiv a (Fin y))"
  by (cases a) (simp_all add: round32_nonneg)

lemma not_negative_not_NaN: "not_negative a \<Longrightarrow> a \<noteq> NaN"
  by (cases a) simp_all

lemma fdiv_zero: "0 < y \<Longrightarrow> fdiv (Fin 0) (Fin y) = Fin 0"
  by simp

lemma squares_not_negative:
  assumes "length inp = length tgt"
    and "\<forall>i<length inp. is_fin (inp ! i) \<and> is_fin (tgt ! i)"
  shows "list_all not_negative (map2 (\<lambda>p y. fmul (fsub p y) (fsub p y)) inp tgt)"
proof -
  have "not_negative (fmul (fsub (inp ! i) (tgt ! i)) (fsub (inp ! i) (tgt ! i)))"
    if "i < length inp" for i
  proof -
    from assms(2) that have "is_fin (inp ! i)" "is_fin (tgt ! i)" by simp_all
    then have "fsub (inp ! i) (tgt ! i) \<noteq> NaN" by (rule fsub_fin_not_NaN)
    then show ?thesis by (rule fmul_self_not_negative)
  qed
  with assms(1) show ?thesis by (simp add: list_all_length)
qed

lemma squares_zero:
  assumes "length inp = length tgt"
    and "\<forall>i<length inp. is_fin (inp ! i) \<and> is_fin (tgt ! i)"
    and "\<forall>i<length inp. inp ! i = tgt ! i"
  shows "fsum (map2 (\<lambda>p y. fmul (fsub p y) (fsub p y)) inp tgt) = Fin 0"
proof (rule fsum_zeros)
  show "list_all (\<lambda>v. v = Fin 0) (map2 (\<lambda>p y. fmul (fsub p y) (fsub p y)) inp tgt)"
    using assms by (auto simp: list_all_length fsub_self)
qed

lemma batch_size_float:
  assumes "0 < n" and "n < 2 ^ 63"
  shows "\<exists>y>0. to_f32 (Fin (real n)) = Fin y"
proof -
  from assms(1) have "1 \<le> real n" by simp
  moreover have "real n < 2 ^ 127"
  proof -
    from assms(2) have "real n < real (2 ^ 63)" by (simp only: of_nat_less_iff)
    also have "\<dots> \<le> 2 ^ 127" by simp
    finally show ?thesis .
  qed
  ultimately show ?thesis using round32_positive [of "real n"] by simp
qed

lemma MSELoss_Inr:
  assumes "MSELoss inp tgt = Inr loss"
  shows "length inp = length tgt \<and>
         loss = fdiv (fsum (map2 (\<lambda>p y. fmul (fsub p y) (fsub p y)) inp tgt))
                  (to_f32 (Fin (real (length inp))))"
  using assms by (auto simp: MSELoss_def split: if_splits)

lemma train_step_Inr:
  assumes "train_step opt net bat_s bat_a bat_t bat_n bat_r = Inr (net', g, loss)"
  shows "\<exists>s yj q_pred. train_forward net bat_s bat_a bat_t bat_n bat_r = Inr (s, yj, q_pred, loss) \<and>
           net' = net\<lparr>conv1 := conv1 (opt net s (floats2 bat_a) yj),
                      conv2 := conv2 (opt net s (floats2 bat_a) yj),
                      fc3 := fc3 (opt net s (floats2 bat_a) yj),
                      fc4 := fc4 (opt net s (floats2 bat_a) yj),
                      optimizer := optimizer (opt net s (floats2 bat_a) yj),
                      global_step := global_step net + 1\<rparr> \<and>
           g = global_step net + 1"
  using assms by (auto simp: train_step_def ebind_eq_Inr Let_def)

lemma train_step_total:
  assumes "batch_ok (params net) bat_s bat_a bat_t bat_n bat_r"
  shows "\<exists>net' g loss. train_step opt net bat_s bat_a bat_t bat_n bat_r = Inr (net', g, loss)"
proof -
  from train_forward_total [OF assms] obtain s yj q_pred loss where
    "train_forward net bat_s bat_a bat_t bat_n bat_r = Inr (s, yj, q_pred, loss)"
    by blast
  then show ?thesis by (simp add: train_step_def Let_def)
qed

lemma train_step_returns_iff:
  "(\<exists>r. train_step opt net bat_s bat_a bat_t bat_n bat_r = Inr r) \<longleftrightarrow>
   (\<exists>r. train_forward net bat_s bat_a bat_t bat_n bat_r = Inr r)"
proof
  assume "\<exists>r. train_step opt net bat_s bat_a bat_t bat_n bat_r = Inr r"
  then obtain net' g loss where "train_step opt net bat_s bat_a bat_t bat_n bat_r = Inr (net', g, loss)"
    by (metis prod_cases3)
  from train_step_Inr [OF this] show "\<exists>r. train_forward net bat_s bat_a bat_t bat_n bat_r = Inr r"
    by blast
next
  assume "\<exists>r. train_forward net bat_s bat_a bat_t bat_n bat_r = Inr r"
  then obtain r where "train_forward net bat_s bat_a bat_t bat_n bat_r = Inr r" ..
  then show "\<exists>r. train_step opt net bat_s bat_a bat_t bat_n bat_r = Inr r"
    by (cases r) (simp add: train_step_def Let_def)
qed

lemma train_forward_lengths:
  assumes "train_forward net bat_s bat_a bat_t bat_n bat_r = Inr (s, yj, q_pred, loss)"
  shows "length q_pred = length bat_s \<and> length yj = length q_pred \<and> MSELoss q_pred yj = Inr loss"
proof -
  from train_forward_Inr [OF assms] obtain n qa where
    s: "permute (floats4 bat_s) = Inr s" and qa: "forward net s = Inr qa" and
    t: "taken qa (floats2 bat_a) = Inr q_pred" and l: "MSELoss q_pred yj = Inr loss"
    by auto
  note ps = mapM_Inr [OF s [unfolded permute_def]]
  note fq = mapM_Inr [OF qa [unfolded forward_def]]
  note tk = taken_Inr [OF t]
  from l have "length q_pred = length yj" by (auto simp: MSELoss_def split: if_splits)
  with ps fq tk l show ?thesis by (simp add: floats4_def)
qed

text \<open>
  Claim C9, amended. For every batch that is not empty, has fewer than \<open>2 ^ 63\<close> rows,
  and on which \<open>train_step\<close> returns: the loss it returns is the sum of the squared
  differences between the prediction for the action taken and the target, divided by
  the number of rows, in 32-bit arithmetic. When every prediction and every target is
  finite, the loss is a number that is not negative (it may be infinite, when a
  difference, a square or the sum overflows), and it is 0 when prediction and target
  agree on every row.
\<close>

theorem loss_of_batch:
  assumes "train_step opt net bat_s bat_a bat_t bat_n bat_r = Inr (net', g, loss)"
    and "bat_s \<noteq> []" and "length bat_s < 2 ^ 63"
  shows "\<exists>s yj q_pred.
           train_forward net bat_s bat_a bat_t bat_n bat_r = Inr (s, yj, q_pred, loss) \<and>
           length q_pred = length bat_s \<and> length yj = length bat_s \<and>
           loss = fdiv (fsum (map2 (\<lambda>p y. fmul (fsub p y) (fsub p y)) q_pred yj))
                    (to_f32 (Fin (real (length bat_s)))) \<and>
           ((\<forall>i<length bat_s. is_fin (q_pred ! i) \<and> is_fin (yj ! i)) \<longrightarrow>
              loss \<noteq> NaN \<and> not_negative loss \<and>
              ((\<forall>i<length bat_s. q_pred ! i = yj ! i) \<longrightarrow> loss = Fin 0))"
proof -
  from train_step_Inr [OF assms(1)] obtain s yj q_pred where
    tf: "train_forward net bat_s bat_a bat_t bat_n bat_r = Inr (s, yj, q_pred, loss)"
    by blast
  from train_forward_lengths [OF tf] have
    lens: "length q_pred = length bat_s" "length yj = length bat_s" and
    l: "MSELoss q_pred yj = Inr loss"
    by simp_all
  let ?sq = "map2 (\<lambda>p y. fmul (fsub p y) (fsub p y)) q_pred yj"
  from MSELoss_Inr [OF l] lens have
    v: "loss = fdiv (fsum ?sq) (to_f32 (Fin (real (length bat_s))))"
    by simp
  from assms(2,3) batch_size_float [of "length bat_s"] obtain y where
    y: "0 < y" "to_f32 (Fin (real (length bat_s))) = Fin y"
    by auto
  have fin: "loss \<noteq> NaN \<and> not_negative loss \<and>
      ((\<forall>i<length bat_s. q_pred ! i = yj ! i) \<longrightarrow> loss = Fin 0)"
    if f: "\<forall>i<length bat_s. is_fin (q_pred ! i) \<and> is_fin (yj ! i)"
  proof -
    from lens f have "list_all not_negative ?sq"
      by (intro squares_not_negative) simp_all
    then have "not_negative (fsum ?sq)" by (rule fsum_not_negative)
    with y have nn: "not_negative loss" by (simp add: v fdiv_not_negative)
    have "loss = Fin 0" if "\<forall>i<length bat_s. q_pred ! i = yj ! i"
    proof -
      from lens f that have "fsum ?sq = Fin 0" by (intro squares_zero) simp_all
      with y show ?thesis by (simp add: v)
    qed
    with nn not_negative_not_NaN [OF nn] show ?thesis by blast
  qed
  from tf lens v fin show ?thesis by blast
qed

text \<open>A batch of two terminal rows with rewards 5 and -2, on the network that answers
  every state with 1, 2, 3, 4: the predictions are 2 and 1, the targets 5 and -2, and the
  loss is \<open>(9 + 9) / 2\<close>.\<close>

theorem loss_of_batch_witness:
  "\<exists>net' g s.
     train_step no_update (fresh_net small_grid (output_bias [Fin 1, Fin 2, Fin 3, Fin 4]))
       [obs_a, obs_b] [[Fin 0, Fin 1, Fin 0, Fin 0], [Fin 1, Fin 0, Fin 0, Fin 0]] [Fin 1, Fin 1]
       [obs_b, obs_a] [Fin 5, Fin (- 2)] = Inr (net', g, Fin 9) \<and>
     train_forward (fresh_net small_grid (output_bias [Fin 1, Fin 2, Fin 3, Fin 4]))
       [obs_a, obs_b] [[Fin 0, Fin 1, Fin 0, Fin 0], [Fin 1, Fin 0, Fin 0, Fin 0]] [Fin 1, Fin 1]
       [obs_b, obs_a] [Fin 5, Fin (- 2)] = Inr (s, [Fin 5, Fin (- 2)], [Fin 2, Fin 1], Fin 9) \<and>
     not_negative (Fin 9)"
proof -
  let ?net = "fresh_net small_grid (output_bias [Fin 1, Fin 2, Fin 3, Fin 4])"
  let ?acts = "[[Fin 0, Fin 1, Fin 0, Fin 0], [Fin 1, Fin 0, Fin 0, Fin 0]]"
  let ?S = "[[[[Fin 1]], [[Fin 0]], [[Fin 0]], [[Fin 0]], [[Fin 0]], [[Fin 0]]],
             [[[Fin 0]], [[Fin 1]], [[Fin 0]], [[Fin 0]], [[Fin 0]], [[Fin 1]]]]"
  have fa: "forward_sample ?net [[[Fin 1]], [[Fin 0]], [[Fin 0]], [[Fin 0]], [[Fin 0]], [[Fin 0]]] =
      Inr [Fin 1, Fin 2, Fin 3, Fin 4]"
    by (rule forward_small_grid) simp_all
  have fb: "forward_sample ?net [[[Fin 0]], [[Fin 1]], [[Fin 0]], [[Fin 0]], [[Fin 0]], [[Fin 1]]] =
      Inr [Fin 1, Fin 2, Fin 3, Fin 4]"
    by (rule forward_small_grid) simp_all
  from round32_discount obtain d where d: "round32 (19 / 20) = Fin d"
    by (auto simp: is_fin_iff)
  have tf: "train_forward ?net [obs_a, obs_b] ?acts [Fin 1, Fin 1] [obs_b, obs_a] [Fin 5, Fin (- 2)] =
      Inr (?S, [Fin 5, Fin (- 2)], [Fin 2, Fin 1], Fin 9)"
    by (simp add: train_forward_def permute_def floats4_def floats2_def floats_def
        bellman_target_def forward_def fa fb row_max_def ew_def d taken_def taken_row_def
        fsum_def MSELoss_def fsub_def)
  then obtain net' g where
    ts: "train_step no_update ?net [obs_a, obs_b] ?acts [Fin 1, Fin 1] [obs_b, obs_a] [Fin 5, Fin (- 2)] =
           Inr (net', g, Fin 9)"
    by (simp add: train_step_def Let_def)
  have ne: "[obs_a, obs_b] \<noteq> []" by simp
  have len: "length [obs_a, obs_b] < 2 ^ 63" by simp
  from loss_of_batch [OF ts ne len] obtain s yj q_pred where
    a: "train_forward ?net [obs_a, obs_b] ?acts [Fin 1, Fin 1] [obs_b, obs_a] [Fin 5, Fin (- 2)] =
          Inr (s, yj, q_pred, Fin 9)" and
    b: "(\<forall>i<length [obs_a, obs_b]. is_fin (q_pred ! i) \<and> is_fin (yj ! i)) \<longrightarrow>
          not_negative (Fin 9)"
    by blast
  from a tf have "yj = [Fin 5, Fin (- 2)]" "q_pred = [Fin 2, Fin 1]" by simp_all
  then have "\<forall>i<length [obs_a, obs_b]. is_fin (q_pred ! i) \<and> is_fin (yj ! i)"
    by (simp add: less_Suc_eq)
  with b have "not_negative (Fin 9)" by blast
  with ts tf show ?thesis by blast
qed

text \<open>
  Claim C9 as stated, for every batch, fails on the empty batch: prediction and target
  agree on every row (there is none), and the loss returned is not a number, so it is
  neither 0 nor non-negative. It also fails on a batch of one row when an output of the
  network is not a number: the loss is not a number either. Both calls count as a step
  all the same.
\<close>

theorem loss_not_a_number:
  "train_step no_update (fresh_net small_grid all_one) [] [] [] [] [] =
     Inr ((fresh_net small_grid all_one)\<lparr>global_step := 1\<rparr>, 1, NaN) \<and>
   train_step no_update (fresh_net small_grid (output_bias [NaN, Fin 0, Fin 0, Fin 0]))
     [obs_a] [[Fin 1, Fin 0, Fin 0, Fin 0]] [Fin 0] [obs_b] [Fin 5] =
     Inr ((fresh_net small_grid (output_bias [NaN, Fin 0, Fin 0, Fin 0]))\<lparr>global_step := 1\<rparr>, 1, NaN)"
proof -
  let ?net = "fresh_net small_grid (output_bias [NaN, Fin 0, Fin 0, Fin 0])"
  have e: "train_forward net [] [] [] [] [] = Inr ([], [], [], NaN)" for net
    by (simp add: train_forward_def permute_def floats4_def floats2_def floats_def forward_def
        bellman_target_def ew_def taken_def MSELoss_def fsum_def)
  have fa: "forward_sample ?net [[[Fin 1]], [[Fin 0]], [[Fin 0]], [[Fin 0]], [[Fin 0]], [[Fin 0]]] =
      Inr [NaN, Fin 0, Fin 0, Fin 0]"
    by (rule forward_small_grid) simp_all
  have fb: "forward_sample ?net [[[Fin 0]], [[Fin 1]], [[Fin 0]], [[Fin 0]], [[Fin 0]], [[Fin 1]]] =
      Inr [NaN, Fin 0, Fin 0, Fin 0]"
    by (rule forward_small_grid) simp_all
  have tf: "train_forward ?net [obs_a] [[Fin 1, Fin 0, Fin 0, Fin 0]] [Fin 0] [obs_b] [Fin 5] =
      Inr ([[[[Fin 1]], [[Fin 0]], [[Fin 0]], [[Fin 0]], [[Fin 0]], [[Fin 0]]]], [NaN], [NaN], NaN)"
    by (simp add: train_forward_def permute_def floats4_def floats2_def floats_def
        bellman_target_def forward_def fa fb row_max_def ew_def taken_def taken_row_def
        fsum_def MSELoss_def fsub_def)
  show ?thesis
    by (simp add: e tf train_step_def no_update_def)
qed

section \<open>The step counter\<close>

lemma train_step_global_step:
  assumes "train_step opt net bat_s bat_a bat_t bat_n bat_r = Inr (net', g, loss)"
  shows "global_step net' = global_step net + 1 \<and> g = global_step net' \<and> params net' = params net"
proof -
  from train_step_Inr [OF assms] obtain s yj where
    "net' = net\<lparr>conv1 := conv1 (opt net s (floats2 bat_a) yj), conv2 := conv2 (opt net s (floats2 bat_a) yj),
               fc3 := fc3 (opt net s (floats2 bat_a) yj), fc4 := fc4 (opt net s (floats2 bat_a) yj),
               optimizer := optimizer (opt net s (floats2 bat_a) yj),
               global_step := global_step net + 1\<rparr>"
    and "g = global_step net + 1"
    by blast
  then show ?thesis by simp
qed

lemma updated_global_step:
  "updated opt net k net' \<Longrightarrow> global_step net' = global_step net + int k"
proof (induction rule: updated.induct)
  case no_call
  show ?case by simp
next
  case (one_more k net1 bat_s bat_a bat_t bat_n bat_r net2 g loss)
  from train_step_global_step [OF one_more.hyps(2)] one_more.IH show ?case by simp
qed

text \<open>
  Claim C4. A call of \<open>train_step\<close> that returns has added exactly 1 to
  \<open>global_step\<close> and returns the new value together with the loss of steps 1 to 5;
  after \<open>k\<close> such calls in a row \<open>global_step\<close> is its first value plus \<open>k\<close>, and
  it has not decreased.
\<close>

theorem global_step_counts:
  "(train_step opt net bat_s bat_a bat_t bat_n bat_r = Inr (net', g, loss) \<longrightarrow>
      global_step net' = global_step net + 1 \<and> g = global_step net' \<and>
      (\<exists>s yj q_pred. train_forward net bat_s bat_a bat_t bat_n bat_r = Inr (s, yj, q_pred, loss))) \<and>
   (updated opt net k net'' \<longrightarrow>
      global_step net'' = global_step net + int k \<and> global_step net \<le> global_step net'')"
proof (intro conjI impI)
  assume ts: "train_step opt net bat_s bat_a bat_t bat_n bat_r = Inr (net', g, loss)"
  from train_step_global_step [OF ts]
  show "global_step net' = global_step net + 1" and "g = global_step net'" by simp_all
  from train_step_Inr [OF ts]
  show "\<exists>s yj q_pred. train_forward net bat_s bat_a bat_t bat_n bat_r = Inr (s, yj, q_pred, loss)"
    by blast
next
  assume "updated opt net k net''"
  then have "global_step net'' = global_step net + int k" by (rule updated_global_step)
  then show "global_step net'' = global_step net + int k" and "global_step net \<le> global_step net''"
    by simp_all
qed

text \<open>Two calls in a row on a freshly constructed network.\<close>

theorem global_step_counts_witness:
  "\<exists>net1 g1 l1 net2 g2 l2.
     train_step no_update (fresh_net small_grid all_one) [obs_a, obs_b] [[Fin 0, Fin 1, Fin 0, Fin 0], [Fin 1, Fin 0, Fin 0, Fin 0]] [Fin 1, Fin 0]
       [obs_b, obs_a] [Fin 5, Fin (- 1)] = Inr (net1, g1, l1) \<and>
     train_step no_update net1 [obs_b] [[Fin 0, Fin 0, Fin 0, Fin 1]] [Fin 0] [obs_a] [Fin 2] = Inr (net2, g2, l2) \<and>
     updated no_update (fresh_net small_grid all_one) 2 net2 \<and>
     g1 = 1 \<and> g2 = 2 \<and> global_step net2 = 2"
proof -
  let ?net = "fresh_net small_grid all_one"
  have z: "global_step ?net = 0" by simp
  have "batch_ok (params ?net) [obs_a, obs_b] [[Fin 0, Fin 1, Fin 0, Fin 0], [Fin 1, Fin 0, Fin 0, Fin 0]] [Fin 1, Fin 0] [obs_b, obs_a] [Fin 5, Fin (- 1)]"
    by (simp add: batch_ok_def obs_ok_def image_dims_def obs_a_def obs_b_def small_grid_def)
  from train_step_total [OF this] obtain net1 g1 l1 where
    t1: "train_step no_update ?net [obs_a, obs_b] [[Fin 0, Fin 1, Fin 0, Fin 0], [Fin 1, Fin 0, Fin 0, Fin 0]] [Fin 1, Fin 0]
           [obs_b, obs_a] [Fin 5, Fin (- 1)] = Inr (net1, g1, l1)"
    by blast
  from global_step_counts [of no_update ?net "[obs_a, obs_b]" "[[Fin 0, Fin 1, Fin 0, Fin 0], [Fin 1, Fin 0, Fin 0, Fin 0]]" "[Fin 1, Fin 0]"
      "[obs_b, obs_a]" "[Fin 5, Fin (- 1)]" net1 g1 l1] t1 z
  have s1: "global_step net1 = 1" "g1 = 1" by simp_all
  from train_step_global_step [OF t1] have "params net1 = small_grid" by simp
  then have "batch_ok (params net1) [obs_b] [[Fin 0, Fin 0, Fin 0, Fin 1]] [Fin 0] [obs_a] [Fin 2]"
    by (simp add: batch_ok_def obs_ok_def image_dims_def obs_a_def obs_b_def small_grid_def)
  from train_step_total [OF this] obtain net2 g2 l2 where
    t2: "train_step no_update net1 [obs_b] [[Fin 0, Fin 0, Fin 0, Fin 1]] [Fin 0] [obs_a] [Fin 2] = Inr (net2, g2, l2)"
    by blast
  from global_step_counts [of no_update net1 "[obs_b]" "[[Fin 0, Fin 0, Fin 0, Fin 1]]" "[Fin 0]" "[obs_a]" "[Fin 2]" net2 g2 l2] t2 s1
  have s2: "g2 = 2" by simp
  have "updated no_update ?net (Suc 0) net1"
    using updated.no_call t1 by (rule updated.one_more)
  then have "updated no_update ?net (Suc (Suc 0)) net2"
    using t2 by (rule updated.one_more)
  then have u: "updated no_update ?net 2 net2" by (simp add: numeral_2_eq_2)
  from global_step_counts [of no_update ?net _ _ _ _ _ _ _ _ 2 net2] u z
  have "global_step net2 = 2" by simp
  with t1 t2 u s1 s2 show ?thesis by blast
qed

section \<open>Loading a state dictionary\<close>

lemma load_param_True:
  "load_param sd key p = (t, True) \<Longrightarrow> map_of sd key = Some t \<and> shape t = shape p"
  by (auto simp: load_param_def split: option.splits if_splits)

lemma load_param_shape:
  "shape (fst (load_param sd key p)) = shape p"
  by (auto simp: load_param_def split: option.splits)

lemma load_param_hit:
  "map_of sd key = Some inp \<Longrightarrow> shape inp = shape p \<Longrightarrow> load_param sd key p = (inp, True)"
  by (simp add: load_param_def)

lemma load_layer_True:
  assumes "load_layer sd name l = (l', True)"
  shows "map_of sd (name @ ''.weight'') = Some (weight l') \<and> map_of sd (name @ ''.bias'') = Some (bias l')"
proof -
  obtain w okw where w: "load_param sd (name @ ''.weight'') (weight l) = (w, okw)" by force
  obtain b okb where b: "load_param sd (name @ ''.bias'') (bias l) = (b, okb)" by force
  from assms w b have "l' = l\<lparr>weight := w, bias := b\<rparr>" "okw" "okb"
    by (simp_all add: load_layer_def)
  with w b show ?thesis by (auto dest: load_param_True)
qed

lemma load_layer_hit:
  assumes "map_of sd (name @ ''.weight'') = Some (weight l')" and "map_of sd (name @ ''.bias'') = Some (bias l')"
    and "shape (weight l') = shape (weight l)" and "shape (bias l') = shape (bias l)"
  shows "load_layer sd name l = (l', True)"
  using assms by (simp add: load_layer_def load_param_hit)

lemma load_layer_shape:
  "shape (weight (fst (load_layer sd name l))) = shape (weight l) \<and>
   shape (bias (fst (load_layer sd name l))) = shape (bias l)"
  by (simp add: load_layer_def split_beta load_param_shape)

lemma map_of_state_dict:
  "map_of (state_dict net) k =
     (if k = ''conv1.weight'' then Some (weight (conv1 net))
      else if k = ''conv1.bias'' then Some (bias (conv1 net))
      else if k = ''conv2.weight'' then Some (weight (conv2 net))
      else if k = ''conv2.bias'' then Some (bias (conv2 net))
      else if k = ''fc3.weight'' then Some (weight (fc3 net))
      else if k = ''fc3.bias'' then Some (bias (fc3 net))
      else if k = ''fc4.weight'' then Some (weight (fc4 net))
      else if k = ''fc4.bias'' then Some (bias (fc4 net))
      else None)"
  by (simp add: state_dict_def)

lemma keys_state_dict:
  "map fst (state_dict net) =
     [''conv1.weight'', ''conv1.bias'', ''conv2.weight'', ''conv2.bias'',
      ''fc3.weight'', ''fc3.bias'', ''fc4.weight'', ''fc4.bias'']"
  by (simp add: state_dict_def)

lemma has_arch_shapes:
  "has_arch p net \<longleftrightarrow>
     shape (weight (conv1 net)) = [16, 6, 3, 3] \<and> shape (bias (conv1 net)) = [16] \<and>
     shape (weight (conv2 net)) = [32, 16, 3, 3] \<and> shape (bias (conv2 net)) = [32] \<and>
     shape (weight (fc3 net)) = [256, flat_size p] \<and> shape (bias (fc3 net)) = [256] \<and>
     shape (weight (fc4 net)) = [4, 256] \<and> shape (bias (fc4 net)) = [4]"
  by (simp add: has_arch_def state_dict_def)

lemma has_arch_fresh_net: "has_arch p (fresh_net p rnd)"
  by (simp add: has_arch_shapes fresh_net_def fresh_tensor_def)

lemma load_state_dict_same_arch:
  assumes "has_arch p net0" and "has_arch p net"
  shows "load_state_dict net0 (StateDict (state_dict net)) =
           (net0\<lparr>conv1 := conv1 net, conv2 := conv2 net, fc3 := fc3 net, fc4 := fc4 net\<rparr>, None)"
proof -
  let ?sd = "state_dict net"
  have c1: "load_layer ?sd ''conv1'' (conv1 net0) = (conv1 net, True)"
    using assms by (intro load_layer_hit) (simp_all add: map_of_state_dict has_arch_shapes)
  have c2: "load_layer ?sd ''conv2'' (conv2 net0) = (conv2 net, True)"
    using assms by (intro load_layer_hit) (simp_all add: map_of_state_dict has_arch_shapes)
  have f3: "load_layer ?sd ''fc3'' (fc3 net0) = (fc3 net, True)"
    using assms by (intro load_layer_hit) (simp_all add: map_of_state_dict has_arch_shapes)
  have f4: "load_layer ?sd ''fc4'' (fc4 net0) = (fc4 net, True)"
    using assms by (intro load_layer_hit) (simp_all add: map_of_state_dict has_arch_shapes)
  have "\<not> list_ex (\<lambda>k. k \<notin> set (map fst (state_dict net0))) (map fst ?sd)"
    by (simp add: keys_state_dict)
  with c1 c2 f3 f4 show ?thesis
    by (simp add: load_state_dict_def)
qed

lemma load_state_dict_None:
  assumes "load_state_dict net obj = (net', None)"
  shows "\<exists>sd. obj = StateDict sd \<and> map_of sd = map_of (state_dict net') \<and>
           params net' = params net \<and> optimizer net' = optimizer net \<and> global_step net' = global_step net"
proof (cases obj)
  case OtherObject
  with assms show ?thesis by (simp add: load_state_dict_def)
next
  case (StateDict sd)
  obtain c1 ok1 where c1: "load_layer sd ''conv1'' (conv1 net) = (c1, ok1)" by force
  obtain c2 ok2 where c2: "load_layer sd ''conv2'' (conv2 net) = (c2, ok2)" by force
  obtain f3 ok3 where f3: "load_layer sd ''fc3'' (fc3 net) = (f3, ok3)" by force
  obtain f4 ok4 where f4: "load_layer sd ''fc4'' (fc4 net) = (f4, ok4)" by force
  from assms StateDict c1 c2 f3 f4 have
    net': "net' = net\<lparr>conv1 := c1, conv2 := c2, fc3 := f3, fc4 := f4\<rparr>" and
    ok: "ok1" "ok2" "ok3" "ok4" and
    un: "\<not> list_ex (\<lambda>k. k \<notin> set (map fst (state_dict net))) (map fst sd)"
    by (auto simp: load_state_dict_def split: if_splits)
  note h = load_layer_True [OF c1 [unfolded \<open>ok1\<close> [THEN eqTrueI]]]
    load_layer_True [OF c2 [unfolded \<open>ok2\<close> [THEN eqTrueI]]]
    load_layer_True [OF f3 [unfolded \<open>ok3\<close> [THEN eqTrueI]]]
    load_layer_True [OF f4 [unfolded \<open>ok4\<close> [THEN eqTrueI]]]
  have "map_of sd k = map_of (state_dict net') k" for k
  proof (cases "k \<in> set (map fst (state_dict net))")
    case True
    with h net' show ?thesis
      by (auto simp: keys_state_dict map_of_state_dict)
  next
    case False
    with un have "k \<notin> set (map fst sd)" by (auto simp: list_ex_iff)
    then have "map_of sd k = None" by (simp add: map_of_eq_None_iff)
    with False show ?thesis by (simp add: keys_state_dict map_of_state_dict)
  qed
  then have "map_of sd = map_of (state_dict net')" by (rule ext)
  with StateDict net' show ?thesis by simp
qed

lemma has_arch_global_step [simp]: "has_arch p (net\<lparr>global_step := n\<rparr>) = has_arch p net"
  by (simp add: has_arch_shapes)

lemma load_state_dict_has_arch:
  assumes "has_arch p net"
  shows "has_arch p (fst (load_state_dict net obj))"
proof (cases obj)
  case OtherObject
  with assms show ?thesis by (simp add: load_state_dict_def)
next
  case (StateDict sd)
  with assms show ?thesis
    by (simp add: load_state_dict_def split_beta has_arch_shapes load_layer_shape)
qed

section \<open>Saving and loading\<close>

lemma forward_sample_cong:
  assumes "conv1 a = conv1 b" "conv2 a = conv2 b" "fc3 a = fc3 b" "fc4 a = fc4 b"
    and "width (params a) = width (params b)" "height (params a) = height (params b)"
  shows "forward_sample a x = forward_sample b x"
  using assms by (simp add: forward_sample_def flat_size_def)

lemma forward_cong:
  assumes "conv1 a = conv1 b" "conv2 a = conv2 b" "fc3 a = fc3 b" "fc4 a = fc4 b"
    and "width (params a) = width (params b)" "height (params a) = height (params b)"
  shows "forward a xs = forward b xs"
proof -
  have "forward_sample a = forward_sample b"
    using assms by (intro ext forward_sample_cong)
  then show ?thesis by (simp add: forward_def)
qed

lemma has_arch_size:
  "width p = width q \<Longrightarrow> height p = height q \<Longrightarrow> has_arch p net = has_arch q net"
  by (simp add: has_arch_shapes flat_size_def)

lemma try_load_saved:
  assumes "has_arch p net0" and "has_arch p net" and "fs path = Some (Pickle (StateDict (state_dict net)))"
  shows "try_load path fs net0 =
           (case step_of_path path of
              Inl e \<Rightarrow> (net0\<lparr>conv1 := conv1 net, conv2 := conv2 net, fc3 := fc3 net, fc4 := fc4 net\<rparr>, Some e)
            | Inr n \<Rightarrow> (net0\<lparr>conv1 := conv1 net, conv2 := conv2 net, fc3 := fc3 net, fc4 := fc4 net,
                            global_step := n\<rparr>, None))"
  using assms(3)
  by (simp add: try_load_def torch_load_def load_state_dict_same_arch [OF assms(1,2)] split: sum.splits)

text \<open>
  Claim C5. For every network whose parameters have the shapes of its architecture,
  and every configuration of the same width and height that names the path:
  \<open>save_ckpt\<close> followed by the construction of a new network from that path gives
  a network whose \<open>forward\<close> agrees with the saved one on every batch. The file
  holds the state dictionary, which is the eight parameter tensors under their layer
  names; the optimizer state and \<open>global_step\<close> have no part in what is written.
\<close>

theorem checkpoint_round_trip:
  assumes "has_arch (params net) net"
    and "width p = width (params net)" and "height p = height (params net)"
    and "load_file p = Some path"
  shows "forward (fst (DQN_init p rnd (fst (save_ckpt net path fs)))) xs = forward net xs \<and>
         fst (save_ckpt net path fs) path = Some (Pickle (StateDict (state_dict net))) \<and>
         state_dict net =
           [(''conv1.weight'', weight (conv1 net)), (''conv1.bias'', bias (conv1 net)),
            (''conv2.weight'', weight (conv2 net)), (''conv2.bias'', bias (conv2 net)),
            (''fc3.weight'', weight (fc3 net)), (''fc3.bias'', bias (fc3 net)),
            (''fc4.weight'', weight (fc4 net)), (''fc4.bias'', bias (fc4 net))] \<and>
         save_ckpt (net\<lparr>optimizer := opt_state, global_step := g\<rparr>) path fs = save_ckpt net path fs"
proof -
  let ?fs = "fst (save_ckpt net path fs)"
  let ?new = "fst (DQN_init p rnd ?fs)"
  have saved: "?fs path = Some (Pickle (StateDict (state_dict net)))"
    by (simp add: save_ckpt_def)
  have a: "has_arch p net" using assms(1-3) has_arch_size [of p "params net" net] by simp
  have "has_arch p (fresh_net p rnd)" by (rule has_arch_fresh_net)
  then have t: "try_load path ?fs (fresh_net p rnd) =
      (case step_of_path path of
         Inl e \<Rightarrow> ((fresh_net p rnd)\<lparr>conv1 := conv1 net, conv2 := conv2 net, fc3 := fc3 net,
                     fc4 := fc4 net\<rparr>, Some e)
       | Inr n \<Rightarrow> ((fresh_net p rnd)\<lparr>conv1 := conv1 net, conv2 := conv2 net, fc3 := fc3 net,
                     fc4 := fc4 net, global_step := n\<rparr>, None))"
    using a saved by (rule try_load_saved)
  have layers: "conv1 ?new = conv1 net \<and> conv2 ?new = conv2 net \<and> fc3 ?new = fc3 net \<and>
      fc4 ?new = fc4 net \<and> params ?new = p"
    using assms(4) saved t by (cases "step_of_path path") (simp_all add: DQN_init_def)
  then have "forward ?new xs = forward net xs"
    using assms(2,3) by (intro forward_cong) simp_all
  moreover have "save_ckpt (net\<lparr>optimizer := opt_state, global_step := g\<rparr>) path fs = save_ckpt net path fs"
    by (simp add: save_ckpt_def state_dict_def)
  ultimately show ?thesis using saved by (simp add: state_dict_def)
qed

text \<open>A network of ones saved, and loaded over a network of zeros.\<close>

theorem checkpoint_round_trip_witness:
  "forward (fst (DQN_init (small_grid\<lparr>load_file := Some ''saves/model-smallGrid_10000_100''\<rparr>) all_zero
             (fst (save_ckpt (fresh_net small_grid all_one) ''saves/model-smallGrid_10000_100'' no_files))))
     [[[[Fin 1]], [[Fin 0]], [[Fin 0]], [[Fin 0]], [[Fin 0]], [[Fin 0]]]] =
   forward (fresh_net small_grid all_one) [[[[Fin 1]], [[Fin 0]], [[Fin 0]], [[Fin 0]], [[Fin 0]], [[Fin 0]]]]"
proof -
  have "has_arch (params (fresh_net small_grid all_one)) (fresh_net small_grid all_one)"
    by (simp add: has_arch_fresh_net)
  from checkpoint_round_trip [OF this, of "small_grid\<lparr>load_file := Some ''saves/model-smallGrid_10000_100''\<rparr>"
      "''saves/model-smallGrid_10000_100''" all_zero no_files]
  show ?thesis by simp
qed

section \<open>Construction with a checkpoint\<close>

lemma shape_fresh_tensor [simp]: "shape (fresh_tensor rnd key shp) = shp"
  by (simp add: fresh_tensor_def)

lemma fresh_tensor_differs:
  assumes "rnd key 0 \<noteq> rnd' key 0" and "0 < prod_list shp"
  shows "fresh_tensor rnd key shp \<noteq> fresh_tensor rnd' key shp"
proof
  assume "fresh_tensor rnd key shp = fresh_tensor rnd' key shp"
  then have "data (fresh_tensor rnd key shp) ! 0 = data (fresh_tensor rnd' key shp) ! 0"
    by simp
  moreover have "data (fresh_tensor r key shp) ! 0 = r key 0" for r
    using assms(2) by (simp add: fresh_tensor_def)
  ultimately show False using assms(1) by simp
qed

lemma DQN_init_loaded:
  assumes "load_file p = Some path" and "fs path = Some (Pickle obj)"
    and "load_state_dict (fresh_net p rnd) obj = (net', None)"
  shows "DQN_init p rnd fs =
           (case step_of_path path of
              Inl e \<Rightarrow> (net', [LoadingCheckpoint, ErrorLoadingModel e])
            | Inr n \<Rightarrow> (net'\<lparr>global_step := n\<rparr>, [LoadingCheckpoint, LoadedModel n]))"
  using assms by (simp add: DQN_init_def try_load_def torch_load_def split: sum.splits)

lemma DQN_init_failed:
  assumes "load_file p = Some path" and "fs path = Some (Pickle obj)"
    and "load_state_dict (fresh_net p rnd) obj = (net', Some e)"
  shows "DQN_init p rnd fs = (net', [LoadingCheckpoint, ErrorLoadingModel e])"
  using assms by (simp add: DQN_init_def try_load_def torch_load_def)

lemma DQN_init_unreadable:
  assumes "load_file p = Some path" and "fs path = Some Garbage"
  shows "DQN_init p rnd fs = (fresh_net p rnd, [LoadingCheckpoint, ErrorLoadingModel UnpicklingError])"
  using assms by (simp add: DQN_init_def try_load_def torch_load_def)

lemma DQN_init_not_a_dict:
  assumes "load_file p = Some path" and "fs path = Some (Pickle OtherObject)"
  shows "DQN_init p rnd fs = (fresh_net p rnd, [LoadingCheckpoint, ErrorLoadingModel TypeError])"
  using assms by (simp add: DQN_init_def try_load_def torch_load_def load_state_dict_def)

lemma load_state_dict_global_step:
  "global_step (fst (load_state_dict net obj)) = global_step net"
  by (cases obj) (simp_all add: load_state_dict_def split_beta)

lemma try_load_error_global_step:
  assumes "try_load path fs net = (net', Some e)"
  shows "global_step net' = global_step net"
proof (cases "torch_load fs path")
  case (Inl e')
  with assms show ?thesis by (simp add: try_load_def)
next
  case (Inr obj)
  obtain net1 r where l: "load_state_dict net obj = (net1, r)" by force
  then have g: "global_step net1 = global_step net"
    using load_state_dict_global_step [of net obj] by simp
  show ?thesis
  proof (cases r)
    case None
    with assms Inr l g show ?thesis
      by (cases "step_of_path path") (simp_all add: try_load_def)
  next
    case (Some e')
    with assms Inr l g show ?thesis by (simp add: try_load_def)
  qed
qed

lemma DQN_init_error_global_step:
  assumes "snd (DQN_init p rnd fs) = [LoadingCheckpoint, ErrorLoadingModel e]"
  shows "global_step (fst (DQN_init p rnd fs)) = 0"
proof (cases "load_file p")
  case None
  with assms show ?thesis by (simp add: DQN_init_def)
next
  case (Some path)
  show ?thesis
  proof (cases "fs path")
    case None
    with assms Some show ?thesis by (simp add: DQN_init_def)
  next
    case (Some content)
    obtain net' r where t: "try_load path fs (fresh_net p rnd) = (net', r)" by force
    show ?thesis
    proof (cases r)
      case None
      with assms t \<open>load_file p = Some path\<close> Some show ?thesis by (simp add: DQN_init_def)
    next
      case (Some e')
      with t have "global_step net' = 0"
        using try_load_error_global_step [of path fs "fresh_net p rnd" net' e'] by simp
      with t Some \<open>load_file p = Some path\<close> \<open>fs path = Some content\<close> show ?thesis
        by (simp add: DQN_init_def)
    qed
  qed
qed

lemma try_load_has_arch:
  assumes "has_arch p net"
  shows "has_arch p (fst (try_load path fs net))"
proof (cases "torch_load fs path")
  case (Inl e)
  with assms show ?thesis by (simp add: try_load_def)
next
  case (Inr obj)
  obtain net1 r where l: "load_state_dict net obj = (net1, r)" by force
  then have "has_arch p net1"
    using load_state_dict_has_arch [OF assms, of obj] by simp
  with Inr l show ?thesis
    by (cases r; cases "step_of_path path") (simp_all add: try_load_def)
qed

lemma DQN_init_cases:
  "fst (DQN_init p rnd fs) = fresh_net p rnd \<or>
   (\<exists>path. fst (DQN_init p rnd fs) = fst (try_load path fs (fresh_net p rnd)))"
proof (cases "load_file p")
  case None
  then show ?thesis by (simp add: DQN_init_def)
next
  case (Some path)
  obtain net' r where "try_load path fs (fresh_net p rnd) = (net', r)" by force
  with Some have "fst (DQN_init p rnd fs) = fresh_net p rnd \<or>
      fst (DQN_init p rnd fs) = fst (try_load path fs (fresh_net p rnd))"
    by (cases r) (simp_all add: DQN_init_def Let_def)
  then show ?thesis by blast
qed

lemma DQN_init_has_arch: "has_arch p (fst (DQN_init p rnd fs))"
  using DQN_init_cases [of p rnd fs] try_load_has_arch [OF has_arch_fresh_net, of p _ fs rnd]
  by (auto simp: has_arch_fresh_net)

lemma try_load_params: "params (fst (try_load path fs net)) = params net"
proof (cases "torch_load fs path")
  case (Inl e)
  then show ?thesis by (simp add: try_load_def)
next
  case (Inr obj)
  obtain net1 r where r: "load_state_dict net obj = (net1, r)" by force
  have "params (fst (load_state_dict net obj)) = params net"
    by (cases obj) (simp_all add: load_state_dict_def split_beta)
  with r have "params net1 = params net" by simp
  with Inr r show ?thesis
    by (cases r; cases "step_of_path path") (simp_all add: try_load_def)
qed

lemma DQN_init_params: "params (fst (DQN_init p rnd fs)) = p"
  using DQN_init_cases [of p rnd fs] by (auto simp: try_load_params)

text \<open>
  Claim C7. When no load path is configured, or one is configured and no file exists
  at it, construction returns the fresh network: the random initial parameters and
  \<open>global_step\<close> 0. In the second case it prints that the model was not found.
\<close>

theorem no_checkpoint_fresh:
  assumes "load_file p = None \<or> (\<exists>path. load_file p = Some path \<and> fs path = None)"
  shows "fst (DQN_init p rnd fs) = fresh_net p rnd \<and>
         global_step (fst (DQN_init p rnd fs)) = 0 \<and>
         snd (DQN_init p rnd fs) = (case load_file p of None \<Rightarrow> [] | Some path \<Rightarrow> [CouldNotFindModel path])"
  using assms by (auto simp: DQN_init_def)

text \<open>A configured path on an empty file system, and no configured path.\<close>

theorem no_checkpoint_fresh_witness:
  "DQN_init (small_grid\<lparr>load_file := Some ''saves/model-smallGrid_10000_100''\<rparr>) all_one no_files =
     (fresh_net (small_grid\<lparr>load_file := Some ''saves/model-smallGrid_10000_100''\<rparr>) all_one,
      [CouldNotFindModel ''saves/model-smallGrid_10000_100'']) \<and>
   DQN_init small_grid all_one no_files = (fresh_net small_grid all_one, []) \<and>
   global_step (fst (DQN_init (small_grid\<lparr>load_file := Some ''saves/model-smallGrid_10000_100''\<rparr>) all_one no_files)) = 0"
proof -
  have a: "load_file (small_grid\<lparr>load_file := Some ''saves/model-smallGrid_10000_100''\<rparr>) = None \<or>
        (\<exists>path. load_file (small_grid\<lparr>load_file := Some ''saves/model-smallGrid_10000_100''\<rparr>) = Some path \<and>
           no_files path = None)"
    by (simp add: no_files_def)
  have b: "load_file small_grid = None \<or> (\<exists>path. load_file small_grid = Some path \<and> no_files path = None)"
    by (simp add: small_grid_def)
  have c: "load_file small_grid = None" by (simp add: small_grid_def)
  from no_checkpoint_fresh [OF a, of all_one] no_checkpoint_fresh [OF b, of all_one] c
  show ?thesis by (simp add: prod_eq_iff)
qed

section \<open>The step count in the path\<close>

lemma str_split_not_Nil: "str_split sep s \<noteq> []"
  by (induction s) (auto split: list.splits)

lemma str_split_append_sep:
  "str_split sep (xs @ sep # ys) = str_split sep xs @ str_split sep ys"
proof (induction xs)
  case Nil
  show ?case by simp
next
  case (Cons c cs)
  obtain f fs where f: "str_split sep cs = f # fs"
    using str_split_not_Nil [of sep cs] by (cases "str_split sep cs") auto
  with Cons show ?case by simp
qed

lemma second_last_append: "second_last (pre @ [a, b]) = Inr a"
  by (simp add: second_last_def nth_append)

lemma str_split_append:
  "str_split sep (xs @ ys) =
     butlast (str_split sep xs) @
     (last (str_split sep xs) @ hd (str_split sep ys)) # tl (str_split sep ys)"
proof (induction xs)
  case Nil
  show ?case using str_split_not_Nil [of sep ys] by simp
next
  case (Cons c cs)
  obtain g gs where g: "str_split sep cs = g # gs"
    using str_split_not_Nil [of sep cs] by (cases "str_split sep cs") auto
  show ?case
  proof (cases "c = sep")
    case True
    with Cons g show ?thesis by simp
  next
    case False
    with Cons g show ?thesis by (cases gs) simp_all
  qed
qed

lemma second_last_longer:
  assumes "2 \<le> length ys"
  shows "second_last (xs @ ys) = second_last ys"
proof -
  from assms have "length xs + length ys - 2 = length xs + (length ys - 2)" by simp
  then have "(xs @ ys) ! (length (xs @ ys) - 2) = ys ! (length ys - 2)"
    by (simp add: nth_append)
  with assms show ?thesis by (simp add: second_last_def)
qed

lemma path_basename: "\<exists>dir. path = dir @ basename path"
proof -
  define r where "r = rev path"
  have "rev (dropWhile (\<lambda>c. c \<noteq> CHR ''/'') r) @ rev (takeWhile (\<lambda>c. c \<noteq> CHR ''/'') r) =
        rev (takeWhile (\<lambda>c. c \<noteq> CHR ''/'') r @ dropWhile (\<lambda>c. c \<noteq> CHR ''/'') r)"
    by (simp only: rev_append)
  also have "\<dots> = rev r" by (simp only: takeWhile_dropWhile_id)
  finally have "path = rev (dropWhile (\<lambda>c. c \<noteq> CHR ''/'') r) @ basename path"
    by (simp add: r_def basename_def)
  then show ?thesis ..
qed

lemma second_last_basename:
  assumes "3 \<le> length (str_split sep (basename path))"
  shows "second_last (str_split sep path) = second_last (str_split sep (basename path))"
proof -
  obtain dir where d: "path = dir @ basename path" using path_basename by blast
  let ?S = "str_split sep (basename path)"
  from assms have t: "2 \<le> length (tl ?S)" by simp
  have "str_split sep path =
      butlast (str_split sep dir) @ (last (str_split sep dir) @ hd ?S) # tl ?S"
    using str_split_append [of sep dir "basename path"] d by simp
  then have "second_last (str_split sep path) =
      second_last ((butlast (str_split sep dir) @ [last (str_split sep dir) @ hd ?S]) @ tl ?S)"
    by simp
  also have "\<dots> = second_last (tl ?S)" using t by (rule second_last_longer)
  also have "\<dots> = second_last ([hd ?S] @ tl ?S)" using t by (rule second_last_longer [symmetric])
  also have "[hd ?S] @ tl ?S = ?S" using str_split_not_Nil [of sep "basename path"] by simp
  finally show ?thesis .
qed

lemma py_int_10000: "py_int ''10000'' = Inr 10000"
  by (simp add: py_int_def strip_def int_space_def digit_of_def)

lemma py_int_separator: "py_int [CHR 0x1F, CHR ''6''] = Inl ValueError"
  by (simp add: py_int_def strip_def int_space_def digit_of_def)

lemma py_int_no_break_space: "py_int [CHR 0xA0, CHR ''6''] = Inr 6"
  by (simp add: py_int_def strip_def int_space_def digit_of_def)

lemma step_of_small_grid_name:
  "step_of_path (dir @ ''model-smallGrid_10000_100'') = Inr 10000"
proof -
  have "dir @ ''model-smallGrid_10000_100'' = (dir @ ''model-smallGrid'') @ CHR ''_'' # ''10000_100''"
    by simp
  then have "str_split CHR ''_'' (dir @ ''model-smallGrid_10000_100'') =
      str_split CHR ''_'' (dir @ ''model-smallGrid'') @ str_split CHR ''_'' ''10000_100''"
    by (simp only: str_split_append_sep)
  also have "str_split CHR ''_'' ''10000_100'' = [''10000'', ''100'']" by simp
  finally show ?thesis
    by (simp only: step_of_path_def second_last_append ebind_Inr py_int_10000)
qed

lemma step_of_path_final: "step_of_path ''saves/model_final.pth'' = Inl ValueError"
  by (simp add: step_of_path_def second_last_def py_int_def strip_def int_space_def digit_of_def)

lemma load_saved_small:
  "load_state_dict (fresh_net (small_grid\<lparr>load_file := Some path\<rparr>) all_zero)
     (StateDict (state_dict (fresh_net small_grid all_one))) =
   ((fresh_net (small_grid\<lparr>load_file := Some path\<rparr>) all_zero)
      \<lparr>conv1 := conv1 (fresh_net small_grid all_one), conv2 := conv2 (fresh_net small_grid all_one),
       fc3 := fc3 (fresh_net small_grid all_one), fc4 := fc4 (fresh_net small_grid all_one)\<rparr>, None)"
proof -
  have "has_arch small_grid (fresh_net (small_grid\<lparr>load_file := Some path\<rparr>) all_zero)"
    using has_arch_fresh_net [of "small_grid\<lparr>load_file := Some path\<rparr>" all_zero]
      has_arch_size [of small_grid "small_grid\<lparr>load_file := Some path\<rparr>"]
    by simp
  then show ?thesis
    using has_arch_fresh_net by (rule load_state_dict_same_arch)
qed

text \<open>
  Claim C6, amended. When the checkpoint at the configured path loads, the whole path
  (not its base name) is split on underscores; when the second-to-last field exists
  and \<open>int\<close> reads it as \<open>n\<close>, \<open>global_step\<close> is \<open>n\<close>. In particular a path that
  ends in \<^verbatim>\<open>model-smallGrid_10000_100\<close>, under any directory, gives 10000. The
  field is the one of the base name whenever the base name has three fields or more.
\<close>

theorem step_count_from_path:
  "(load_file p = Some path \<and> fs path = Some (Pickle obj) \<and>
    load_state_dict (fresh_net p rnd) obj = (net', None) \<and>
    second_last (str_split CHR ''_'' path) = Inr field \<and> py_int field = Inr n \<longrightarrow>
      DQN_init p rnd fs = (net'\<lparr>global_step := n\<rparr>, [LoadingCheckpoint, LoadedModel n]) \<and>
      global_step (fst (DQN_init p rnd fs)) = n) \<and>
   (load_file p = Some (dir @ ''model-smallGrid_10000_100'') \<and>
    fs (dir @ ''model-smallGrid_10000_100'') = Some (Pickle obj) \<and>
    load_state_dict (fresh_net p rnd) obj = (net', None) \<longrightarrow>
      global_step (fst (DQN_init p rnd fs)) = 10000) \<and>
   (3 \<le> length (str_split CHR ''_'' (basename path)) \<longrightarrow>
      second_last (str_split CHR ''_'' path) = second_last (str_split CHR ''_'' (basename path)))"
proof (intro conjI impI)
  assume a: "load_file p = Some path \<and> fs path = Some (Pickle obj) \<and>
    load_state_dict (fresh_net p rnd) obj = (net', None) \<and>
    second_last (str_split CHR ''_'' path) = Inr field \<and> py_int field = Inr n"
  then have s: "step_of_path path = Inr n" by (simp add: step_of_path_def)
  have "load_file p = Some path" "fs path = Some (Pickle obj)"
    "load_state_dict (fresh_net p rnd) obj = (net', None)"
    using a by simp_all
  then have "DQN_init p rnd fs =
          (case step_of_path path of
             Inl e \<Rightarrow> (net', [LoadingCheckpoint, ErrorLoadingModel e])
           | Inr n \<Rightarrow> (net'\<lparr>global_step := n\<rparr>, [LoadingCheckpoint, LoadedModel n]))"
    by (rule DQN_init_loaded)
  with s show "DQN_init p rnd fs = (net'\<lparr>global_step := n\<rparr>, [LoadingCheckpoint, LoadedModel n])"
    and "global_step (fst (DQN_init p rnd fs)) = n"
    by simp_all
next
  assume a: "load_file p = Some (dir @ ''model-smallGrid_10000_100'') \<and>
    fs (dir @ ''model-smallGrid_10000_100'') = Some (Pickle obj) \<and>
    load_state_dict (fresh_net p rnd) obj = (net', None)"
  have "load_file p = Some (dir @ ''model-smallGrid_10000_100'')"
    "fs (dir @ ''model-smallGrid_10000_100'') = Some (Pickle obj)"
    "load_state_dict (fresh_net p rnd) obj = (net', None)"
    using a by simp_all
  then have "DQN_init p rnd fs =
          (case step_of_path (dir @ ''model-smallGrid_10000_100'') of
             Inl e \<Rightarrow> (net', [LoadingCheckpoint, ErrorLoadingModel e])
           | Inr n \<Rightarrow> (net'\<lparr>global_step := n\<rparr>, [LoadingCheckpoint, LoadedModel n]))"
    by (rule DQN_init_loaded)
  then show "global_step (fst (DQN_init p rnd fs)) = 10000"
    by (simp add: step_of_small_grid_name)
next
  assume "3 \<le> length (str_split CHR ''_'' (basename path))"
  then show "second_last (str_split CHR ''_'' path) = second_last (str_split CHR ''_'' (basename path))"
    by (rule second_last_basename)
qed

text \<open>The checkpoint \<^verbatim>\<open>saves/model-smallGrid_10000_100\<close>.\<close>

theorem step_count_from_path_witness:
  "DQN_init (small_grid\<lparr>load_file := Some ''saves/model-smallGrid_10000_100''\<rparr>) all_zero
     (fst (save_ckpt (fresh_net small_grid all_one) ''saves/model-smallGrid_10000_100'' no_files)) =
   ((fresh_net (small_grid\<lparr>load_file := Some ''saves/model-smallGrid_10000_100''\<rparr>) all_zero)
      \<lparr>conv1 := conv1 (fresh_net small_grid all_one), conv2 := conv2 (fresh_net small_grid all_one),
       fc3 := fc3 (fresh_net small_grid all_one), fc4 := fc4 (fresh_net small_grid all_one),
       global_step := 10000\<rparr>,
    [LoadingCheckpoint, LoadedModel 10000])"
proof -
  have f: "second_last (str_split CHR ''_'' ''saves/model-smallGrid_10000_100'') = Inr ''10000''"
    by (simp add: second_last_def)
  show ?thesis
    using step_count_from_path [of "small_grid\<lparr>load_file := Some ''saves/model-smallGrid_10000_100''\<rparr>"
        "''saves/model-smallGrid_10000_100''"
        "fst (save_ckpt (fresh_net small_grid all_one) ''saves/model-smallGrid_10000_100'' no_files)"
        "StateDict (state_dict (fresh_net small_grid all_one))" all_zero _ "''10000''" 10000]
      load_saved_small [of "''saves/model-smallGrid_10000_100''"] f py_int_10000
    by (simp add: save_ckpt_def)
qed

text \<open>
  Claim C6 as stated, on the base name, fails for \<^verbatim>\<open>ckpt/7_x\<close>: the base name
  \<^verbatim>\<open>7_x\<close> has the second-to-last field 7, the checkpoint loads, and the source reads
  the field \<^verbatim>\<open>ckpt/7\<close> of the whole path, which is not a number; \<open>global_step\<close>
  stays 0.
\<close>

theorem step_count_base_name_differs:
  "step_of_base_name ''ckpt/7_x'' = Inr 7 \<and>
   step_of_path ''ckpt/7_x'' = Inl ValueError \<and>
   load_state_dict (fresh_net (small_grid\<lparr>load_file := Some ''ckpt/7_x''\<rparr>) all_zero)
     (StateDict (state_dict (fresh_net small_grid all_one))) =
   ((fresh_net (small_grid\<lparr>load_file := Some ''ckpt/7_x''\<rparr>) all_zero)
      \<lparr>conv1 := conv1 (fresh_net small_grid all_one), conv2 := conv2 (fresh_net small_grid all_one),
       fc3 := fc3 (fresh_net small_grid all_one), fc4 := fc4 (fresh_net small_grid all_one)\<rparr>, None) \<and>
   snd (DQN_init (small_grid\<lparr>load_file := Some ''ckpt/7_x''\<rparr>) all_zero
     (fst (save_ckpt (fresh_net small_grid all_one) ''ckpt/7_x'' no_files))) =
     [LoadingCheckpoint, ErrorLoadingModel ValueError] \<and>
   global_step (fst (DQN_init (small_grid\<lparr>load_file := Some ''ckpt/7_x''\<rparr>) all_zero
     (fst (save_ckpt (fresh_net small_grid all_one) ''ckpt/7_x'' no_files)))) = 0"
proof -
  have base: "step_of_base_name ''ckpt/7_x'' = Inr 7"
    by (simp add: step_of_base_name_def basename_def second_last_def py_int_def strip_def
        int_space_def digit_of_def)
  have path: "step_of_path ''ckpt/7_x'' = Inl ValueError"
    by (simp add: step_of_path_def second_last_def py_int_def strip_def int_space_def digit_of_def)
  have a: "load_file (small_grid\<lparr>load_file := Some ''ckpt/7_x''\<rparr>) = Some ''ckpt/7_x''"
    by simp
  have b: "fst (save_ckpt (fresh_net small_grid all_one) ''ckpt/7_x'' no_files) ''ckpt/7_x'' =
           Some (Pickle (StateDict (state_dict (fresh_net small_grid all_one))))"
    by (simp add: save_ckpt_def)
  have "DQN_init (small_grid\<lparr>load_file := Some ''ckpt/7_x''\<rparr>) all_zero
          (fst (save_ckpt (fresh_net small_grid all_one) ''ckpt/7_x'' no_files)) =
        (case step_of_path ''ckpt/7_x'' of
           Inl e \<Rightarrow> ((fresh_net (small_grid\<lparr>load_file := Some ''ckpt/7_x''\<rparr>) all_zero)
              \<lparr>conv1 := conv1 (fresh_net small_grid all_one), conv2 := conv2 (fresh_net small_grid all_one),
               fc3 := fc3 (fresh_net small_grid all_one), fc4 := fc4 (fresh_net small_grid all_one)\<rparr>,
              [LoadingCheckpoint, ErrorLoadingModel e])
         | Inr n \<Rightarrow> ((fresh_net (small_grid\<lparr>load_file := Some ''ckpt/7_x''\<rparr>) all_zero)
              \<lparr>conv1 := conv1 (fresh_net small_grid all_one), conv2 := conv2 (fresh_net small_grid all_one),
               fc3 := fc3 (fresh_net small_grid all_one), fc4 := fc4 (fresh_net small_grid all_one),
               global_step := n\<rparr>,
              [LoadingCheckpoint, LoadedModel n]))"
    using a b load_saved_small by (rule DQN_init_loaded)
  with base path load_saved_small [of "''ckpt/7_x''"] show ?thesis by simp
qed

text \<open>
  Claim C10. When the file exists, \<open>load_state_dict\<close> succeeds and reading the step
  count from the path raises, construction still returns: the network holds the
  parameters of the checkpoint, \<open>global_step\<close> is 0, and the message is the one for a
  failed load. Reading the step count is \<open>step_of_path\<close>: it raises \<open>IndexError\<close> on
  a path without underscore and \<open>ValueError\<close> when \<open>int\<close> rejects the field.
\<close>

theorem parse_failure_mixed_state:
  assumes "load_file p = Some path" and "fs path = Some (Pickle obj)"
    and "load_state_dict (fresh_net p rnd) obj = (net', None)"
    and "step_of_path path = Inl e"
  shows "DQN_init p rnd fs = (net', [LoadingCheckpoint, ErrorLoadingModel e]) \<and>
         global_step net' = 0 \<and>
         (\<exists>sd. obj = StateDict sd \<and> map_of (state_dict net') = map_of sd)"
proof -
  have "DQN_init p rnd fs =
          (case step_of_path path of
             Inl e \<Rightarrow> (net', [LoadingCheckpoint, ErrorLoadingModel e])
           | Inr n \<Rightarrow> (net'\<lparr>global_step := n\<rparr>, [LoadingCheckpoint, LoadedModel n]))"
    using assms(1-3) by (rule DQN_init_loaded)
  with assms(4) have "DQN_init p rnd fs = (net', [LoadingCheckpoint, ErrorLoadingModel e])" by simp
  moreover from load_state_dict_None [OF assms(3)]
  have "global_step net' = 0" and "\<exists>sd. obj = StateDict sd \<and> map_of (state_dict net') = map_of sd"
    by auto
  ultimately show ?thesis by simp
qed

text \<open>
  A checkpoint named \<^verbatim>\<open>saves/model_final.pth\<close>: the second-to-last field is
  \<^verbatim>\<open>saves/model\<close>, not a number. The first convolution is the saved one, not the
  fresh one.
\<close>

theorem parse_failure_mixed_state_witness:
  "DQN_init (small_grid\<lparr>load_file := Some ''saves/model_final.pth''\<rparr>) all_zero
     (fst (save_ckpt (fresh_net small_grid all_one) ''saves/model_final.pth'' no_files)) =
   ((fresh_net (small_grid\<lparr>load_file := Some ''saves/model_final.pth''\<rparr>) all_zero)
      \<lparr>conv1 := conv1 (fresh_net small_grid all_one), conv2 := conv2 (fresh_net small_grid all_one),
       fc3 := fc3 (fresh_net small_grid all_one), fc4 := fc4 (fresh_net small_grid all_one)\<rparr>,
    [LoadingCheckpoint, ErrorLoadingModel ValueError]) \<and>
   global_step ((fresh_net (small_grid\<lparr>load_file := Some ''saves/model_final.pth''\<rparr>) all_zero)
      \<lparr>conv1 := conv1 (fresh_net small_grid all_one), conv2 := conv2 (fresh_net small_grid all_one),
       fc3 := fc3 (fresh_net small_grid all_one), fc4 := fc4 (fresh_net small_grid all_one)\<rparr>) = 0 \<and>
   conv1 (fresh_net small_grid all_one) \<noteq>
     conv1 (fresh_net (small_grid\<lparr>load_file := Some ''saves/model_final.pth''\<rparr>) all_zero)"
proof -
  have a: "load_file (small_grid\<lparr>load_file := Some ''saves/model_final.pth''\<rparr>) = Some ''saves/model_final.pth''"
    by simp
  have b: "fst (save_ckpt (fresh_net small_grid all_one) ''saves/model_final.pth'' no_files)
             ''saves/model_final.pth'' =
           Some (Pickle (StateDict (state_dict (fresh_net small_grid all_one))))"
    by (simp add: save_ckpt_def)
  have "fresh_tensor all_one ''conv1.weight'' [16, 6, 3, 3] \<noteq> fresh_tensor all_zero ''conv1.weight'' [16, 6, 3, 3]"
    by (rule fresh_tensor_differs) (simp_all add: all_one_def all_zero_def)
  then have d: "conv1 (fresh_net small_grid all_one) \<noteq>
     conv1 (fresh_net (small_grid\<lparr>load_file := Some ''saves/model_final.pth''\<rparr>) all_zero)"
    by (simp add: fresh_net_def)
  note parse_failure_mixed_state
    [where fs = "fst (save_ckpt (fresh_net small_grid all_one) ''saves/model_final.pth'' no_files)"
       and rnd = all_zero, OF a b load_saved_small step_of_path_final]
  with d show ?thesis by simp
qed

lemma load_wide_into_small:
  "load_state_dict (fresh_net (small_grid\<lparr>load_file := Some path\<rparr>) all_zero)
     (StateDict (state_dict (fresh_net wide_grid all_one))) =
   ((fresh_net (small_grid\<lparr>load_file := Some path\<rparr>) all_zero)
      \<lparr>conv1 := conv1 (fresh_net wide_grid all_one), conv2 := conv2 (fresh_net wide_grid all_one),
       fc3 := (fc3 (fresh_net small_grid all_zero))\<lparr>bias := bias (fc3 (fresh_net wide_grid all_one))\<rparr>,
       fc4 := fc4 (fresh_net wide_grid all_one)\<rparr>, Some RuntimeError)"
proof -
  let ?net = "fresh_net (small_grid\<lparr>load_file := Some path\<rparr>) all_zero"
  let ?ckpt = "fresh_net wide_grid all_one"
  have c1: "load_layer (state_dict ?ckpt) ''conv1'' (conv1 ?net) = (conv1 ?ckpt, True)"
    by (intro load_layer_hit) (simp_all add: map_of_state_dict fresh_net_def)
  have c2: "load_layer (state_dict ?ckpt) ''conv2'' (conv2 ?net) = (conv2 ?ckpt, True)"
    by (intro load_layer_hit) (simp_all add: map_of_state_dict fresh_net_def)
  have f4: "load_layer (state_dict ?ckpt) ''fc4'' (fc4 ?net) = (fc4 ?ckpt, True)"
    by (intro load_layer_hit) (simp_all add: map_of_state_dict fresh_net_def)
  have f3: "load_layer (state_dict ?ckpt) ''fc3'' (fc3 ?net) =
      ((fc3 (fresh_net small_grid all_zero))\<lparr>bias := bias (fc3 ?ckpt)\<rparr>, False)"
    by (simp add: load_layer_def load_param_def map_of_state_dict fresh_net_def flat_size_def
        small_grid_def wide_grid_def)
  from c1 c2 f3 f4 show ?thesis
    by (simp add: load_state_dict_def)
qed

text \<open>
  Claim C8 says that after a failed load the network is fresh. It is so when the file
  cannot be read or does not hold a dictionary, and \<open>global_step\<close> is 0 after every
  failed load (the lemmas above). It is not so for a checkpoint of another grid size:
  a checkpoint of the 2x1 grid read into a network of the 1x1 grid makes
  \<open>load_state_dict\<close> raise on the shape of \<^verbatim>\<open>fc3.weight\<close>, after it has overwritten
  the parameters whose shapes agree. The message says the load failed; the first
  convolution is the checkpoint's.
\<close>

theorem mismatched_checkpoint_not_fresh:
  "snd (DQN_init (small_grid\<lparr>load_file := Some ''saves/model-wideGrid_10000_100''\<rparr>) all_zero
     (fst (save_ckpt (fresh_net wide_grid all_one) ''saves/model-wideGrid_10000_100'' no_files))) =
     [LoadingCheckpoint, ErrorLoadingModel RuntimeError] \<and>
   global_step (fst (DQN_init (small_grid\<lparr>load_file := Some ''saves/model-wideGrid_10000_100''\<rparr>) all_zero
     (fst (save_ckpt (fresh_net wide_grid all_one) ''saves/model-wideGrid_10000_100'' no_files)))) = 0 \<and>
   conv1 (fst (DQN_init (small_grid\<lparr>load_file := Some ''saves/model-wideGrid_10000_100''\<rparr>) all_zero
     (fst (save_ckpt (fresh_net wide_grid all_one) ''saves/model-wideGrid_10000_100'' no_files)))) =
     conv1 (fresh_net wide_grid all_one) \<and>
   conv1 (fst (DQN_init (small_grid\<lparr>load_file := Some ''saves/model-wideGrid_10000_100''\<rparr>) all_zero
     (fst (save_ckpt (fresh_net wide_grid all_one) ''saves/model-wideGrid_10000_100'' no_files)))) \<noteq>
     conv1 (fresh_net (small_grid\<lparr>load_file := Some ''saves/model-wideGrid_10000_100''\<rparr>) all_zero) \<and>
   weight (fc3 (fst (DQN_init (small_grid\<lparr>load_file := Some ''saves/model-wideGrid_10000_100''\<rparr>) all_zero
     (fst (save_ckpt (fresh_net wide_grid all_one) ''saves/model-wideGrid_10000_100'' no_files))))) =
     weight (fc3 (fresh_net (small_grid\<lparr>load_file := Some ''saves/model-wideGrid_10000_100''\<rparr>) all_zero))"
proof -
  let ?p = "small_grid\<lparr>load_file := Some ''saves/model-wideGrid_10000_100''\<rparr>"
  let ?fs = "fst (save_ckpt (fresh_net wide_grid all_one) ''saves/model-wideGrid_10000_100'' no_files)"
  have a: "load_file ?p = Some ''saves/model-wideGrid_10000_100''" by simp
  have b: "?fs ''saves/model-wideGrid_10000_100'' =
           Some (Pickle (StateDict (state_dict (fresh_net wide_grid all_one))))"
    by (simp add: save_ckpt_def)
  have init: "DQN_init ?p all_zero ?fs =
      ((fresh_net ?p all_zero)
        \<lparr>conv1 := conv1 (fresh_net wide_grid all_one), conv2 := conv2 (fresh_net wide_grid all_one),
         fc3 := (fc3 (fresh_net small_grid all_zero))\<lparr>bias := bias (fc3 (fresh_net wide_grid all_one))\<rparr>,
         fc4 := fc4 (fresh_net wide_grid all_one)\<rparr>,
       [LoadingCheckpoint, ErrorLoadingModel RuntimeError])"
    using a b load_wide_into_small by (rule DQN_init_failed)
  have "fresh_tensor all_one ''conv1.weight'' [16, 6, 3, 3] \<noteq> fresh_tensor all_zero ''conv1.weight'' [16, 6, 3, 3]"
    by (rule fresh_tensor_differs) (simp_all add: all_one_def all_zero_def)
  then have d: "conv1 (fresh_net wide_grid all_one) \<noteq> conv1 (fresh_net ?p all_zero)"
    by (simp add: fresh_net_def)
  have w: "weight (fc3 (fresh_net small_grid all_zero)) = weight (fc3 (fresh_net ?p all_zero))"
    by (simp add: fresh_net_def flat_size_def small_grid_def)
  from d w show ?thesis unfolding init by simp
qed

end
